theory Spec2Isabelle
  imports Main "HOL-Library.AList" "HOL-Library.Char_ord" "HOL-Library.List_Lexorder"
begin

section \<open>Python values and exceptions\<close>

text \<open>
  The module \<^verbatim>\<open>h5pickle/__init__.py\<close> is embedded with explicit state passing.
  Exceptions are values of \<open>pyerr\<close>; an operation returns a pair of its outcome
  (\<open>Inl\<close> the exception, \<open>Inr\<close> the value) and the state it leaves behind, so the
  effects that happened before a raise stay visible.
  The module-level \<^verbatim>\<open>RLock\<close> is not modelled: the embedding is sequential.
\<close>

datatype pyerr =
    TypeError | AttributeError | KeyError | ValueError | OSError | RuntimeError | RecursionError

text \<open>
  Argument values. \<open>PObject\<close> stands for any object that \<^verbatim>\<open>json.dumps\<close> rejects
  (an h5py identifier, a set, bytes, ...). Strings are restricted to code points below
  256, dictionary keys to strings, and floats are left out.
\<close>

datatype pyval =
    PNone
  | PBool bool
  | PInt int
  | PStr string
  | PList "pyval list"
  | PTuple "pyval list"
  | PDict "(string \<times> pyval) list"
  | PObject nat

type_synonym kwargs = "(string \<times> pyval) list"

text \<open>Truth value of an object, as \<^verbatim>\<open>if skip_cache or ...\<close> tests it.\<close>

fun truthy :: "pyval \<Rightarrow> bool" where
  "truthy PNone = False"
| "truthy (PBool b) = b"
| "truthy (PInt i) = (i \<noteq> 0)"
| "truthy (PStr s) = (s \<noteq> [])"
| "truthy (PList xs) = (xs \<noteq> [])"
| "truthy (PTuple xs) = (xs \<noteq> [])"
| "truthy (PDict kvs) = (kvs \<noteq> [])"
| "truthy (PObject n) = True"

text \<open>\<^verbatim>\<open>kwargs.pop(key, default)\<close> on a dictionary kept as an association list.\<close>

definition dict_pop :: "string \<Rightarrow> pyval \<Rightarrow> kwargs \<Rightarrow> pyval \<times> kwargs" where
  "dict_pop k d kw =
     (case map_of kw k of
        None \<Rightarrow> (d, kw)
      | Some v \<Rightarrow> (v, AList.delete k kw))"

section \<open>\<^verbatim>\<open>json.dumps\<close> and \<^verbatim>\<open>arghash\<close>\<close>

definition hex_digit :: "nat \<Rightarrow> char" where
  "hex_digit d = (if d < 10 then char_of (48 + d) else char_of (87 + d))"

text \<open>
  The escaping of \<^verbatim>\<open>json.dumps\<close> with \<^verbatim>\<open>ensure_ascii=True\<close>: the quote, the
  backslash and every character outside the range from space to tilde are escaped.
\<close>

definition escape_char :: "char \<Rightarrow> string" where
  "escape_char c =
     (if c = CHR 0x22 then [CHR 0x5C, CHR 0x22]
      else if c = CHR 0x5C then [CHR 0x5C, CHR 0x5C]
      else if c = CHR 0x0A then [CHR 0x5C, CHR ''n'']
      else if c = CHR 0x0D then [CHR 0x5C, CHR ''r'']
      else if c = CHR 0x09 then [CHR 0x5C, CHR ''t'']
      else if c = CHR 0x08 then [CHR 0x5C, CHR ''b'']
      else if c = CHR 0x0C then [CHR 0x5C, CHR ''f'']
      else if (of_char c :: nat) < 32 \<or> 126 < (of_char c :: nat)
        then [CHR 0x5C, CHR ''u'', CHR ''0'', CHR ''0'',
              hex_digit ((of_char c :: nat) div 16), hex_digit ((of_char c :: nat) mod 16)]
      else [c])"

definition json_string :: "string \<Rightarrow> string" where
  "json_string s = [CHR 0x22] @ concat (map escape_char s) @ [CHR 0x22]"

fun show_nat :: "nat \<Rightarrow> string" where
  "show_nat n =
     (if n < 10 then [char_of (48 + n)]
      else show_nat (n div 10) @ [char_of (48 + n mod 10)])"

definition show_int :: "int \<Rightarrow> string" where
  "show_int i = (if i < 0 then CHR ''-'' # show_nat (nat (- i)) else show_nat (nat i))"

fun join_comma :: "string list \<Rightarrow> string" where
  "join_comma [] = []"
| "join_comma [x] = x"
| "join_comma (x # y # ys) = x @ '', '' @ join_comma (y # ys)"

text \<open>
  \<open>dumps sk v\<close> is \<^verbatim>\<open>json.dumps(v, sort_keys=sk)\<close>. Lists and tuples both become
  JSON arrays. The items of a dictionary are encoded in their order and, with
  \<open>sk\<close>, ordered by key before they are joined; keys are unique, so this is the
  order of \<^verbatim>\<open>sorted(dct.items())\<close>.
\<close>

fun dumps :: "bool \<Rightarrow> pyval \<Rightarrow> pyerr + string"
  and dumps_list :: "bool \<Rightarrow> pyval list \<Rightarrow> pyerr + string list"
  and dumps_items :: "bool \<Rightarrow> (string \<times> pyval) list \<Rightarrow> pyerr + (string \<times> string) list"
where
  "dumps sk PNone = Inr ''null''"
| "dumps sk (PBool b) = Inr (if b then ''true'' else ''false'')"
| "dumps sk (PInt i) = Inr (show_int i)"
| "dumps sk (PStr s) = Inr (json_string s)"
| "dumps sk (PList xs) =
     (case dumps_list sk xs of
        Inl e \<Rightarrow> Inl e
      | Inr ys \<Rightarrow> Inr (''['' @ join_comma ys @ '']''))"
| "dumps sk (PTuple xs) =
     (case dumps_list sk xs of
        Inl e \<Rightarrow> Inl e
      | Inr ys \<Rightarrow> Inr (''['' @ join_comma ys @ '']''))"
| "dumps sk (PDict kvs) =
     (case dumps_items sk kvs of
        Inl e \<Rightarrow> Inl e
      | Inr ps \<Rightarrow>
          Inr (''{'' @ join_comma (map (\<lambda>(k, v). json_string k @ '': '' @ v)
                                     (if sk then sort_key fst ps else ps)) @ ''}''))"
| "dumps sk (PObject n) = Inl TypeError"
| "dumps_list sk [] = Inr []"
| "dumps_list sk (x # xs) =
     (case dumps sk x of
        Inl e \<Rightarrow> Inl e
      | Inr y \<Rightarrow> (case dumps_list sk xs of Inl e \<Rightarrow> Inl e | Inr ys \<Rightarrow> Inr (y # ys)))"
| "dumps_items sk [] = Inr []"
| "dumps_items sk (kv # kvs) =
     (case dumps sk (snd kv) of
        Inl e \<Rightarrow> Inl e
      | Inr y \<Rightarrow>
          (case dumps_items sk kvs of
             Inl e \<Rightarrow> Inl e
           | Inr ys \<Rightarrow> Inr ((fst kv, y) # ys)))"

text \<open>
  Everything the module takes from outside: Python's built-in \<^verbatim>\<open>hash\<close> on strings and
  the h5py operations it calls. They are parameters; \<open>'w\<close> is the state of the native
  library and of the files behind it. An h5py operation returns its outcome and the
  new native state.
\<close>

type_synonym obj = nat

record h5dataset =
  ds_file_name :: string
  ds_file_mode :: string
  ds_name :: string
  ds_id :: nat

text \<open>
  What \<^verbatim>\<open>h5py.Group.__getitem__\<close> can return, and what it is called on: a File
  object of this module or a group with a native identifier.
\<close>

datatype h5obj =
    H5Dataset h5dataset
  | H5Group nat string
  | H5File nat string
  | H5Datatype nat
  | H5Other pyval

datatype h5ref = OfFile obj | OfGroup nat

record 'w extern =
  py_hash :: "string \<Rightarrow> int"
  h5py_File_init :: "obj \<Rightarrow> pyval list \<Rightarrow> kwargs \<Rightarrow> 'w \<Rightarrow> (pyerr + unit) \<times> 'w"
  h5py_File_close :: "obj \<Rightarrow> 'w \<Rightarrow> (pyerr + unit) \<times> 'w"
  h5py_Group_getitem :: "h5ref \<Rightarrow> string \<Rightarrow> 'w \<Rightarrow> (pyerr + h5obj) \<times> 'w"
  h5py_Dataset_getattr :: "h5dataset \<Rightarrow> string \<Rightarrow> 'w \<Rightarrow> (pyerr + pyval) \<times> 'w"
  h5py_Dataset_getitem :: "h5dataset \<Rightarrow> pyval \<Rightarrow> 'w \<Rightarrow> (pyerr + pyval) \<times> 'w"

text \<open>
  \<^verbatim>\<open>def arghash(*args, **kwargs):
    return hash(json.dumps(args) + json.dumps(kwargs, sort_keys=True))\<close>
\<close>

definition arghash :: "'w extern \<Rightarrow> pyval list \<Rightarrow> kwargs \<Rightarrow> pyerr + int" where
  "arghash ext args kw =
     (case dumps False (PTuple args) of
        Inl e \<Rightarrow> Inl e
      | Inr a \<Rightarrow>
          (case dumps True (PDict kw) of
             Inl e \<Rightarrow> Inl e
           | Inr k \<Rightarrow> Inr (py_hash ext (a @ k))))"

section \<open>The cache\<close>

text \<open>
  \<^verbatim>\<open>cachetools.LRUCache\<close>, the base class of \<open>LRUFileCache\<close>: a dictionary
  (\<open>lru_data\<close>, in insertion order) with the keys in order of use (\<open>lru_order\<close>,
  least recently used first). Every value has size 1, so the current size is the
  number of entries. Keys are the integers \<^verbatim>\<open>arghash\<close> returns, values are File objects.
\<close>

record lru =
  lru_data :: "(int \<times> obj) list"
  lru_order :: "int list"
  lru_maxsize :: nat

text \<open>\<^verbatim>\<open>key in cache\<close> does not count as a use.\<close>

definition lru_contains :: "int \<Rightarrow> lru \<Rightarrow> bool" where
  "lru_contains k c = (map_of (lru_data c) k \<noteq> None)"

text \<open>\<^verbatim>\<open>cache[key]\<close>: \<^verbatim>\<open>KeyError\<close> on a missing key, else the key becomes the most recent.\<close>

definition LRUCache_getitem :: "int \<Rightarrow> lru \<Rightarrow> (pyerr + obj) \<times> lru" where
  "LRUCache_getitem k c =
     (case map_of (lru_data c) k of
        None \<Rightarrow> (Inl KeyError, c)
      | Some v \<Rightarrow> (Inr v, c\<lparr>lru_order := removeAll k (lru_order c) @ [k]\<rparr>))"

text \<open>\<^verbatim>\<open>del cache[key]\<close>\<close>

definition LRUCache_delitem :: "int \<Rightarrow> lru \<Rightarrow> (pyerr + unit) \<times> lru" where
  "LRUCache_delitem k c =
     (case map_of (lru_data c) k of
        None \<Rightarrow> (Inl KeyError, c)
      | Some v \<Rightarrow>
          (Inr (), c\<lparr>lru_data := AList.delete k (lru_data c),
                     lru_order := removeAll k (lru_order c)\<rparr>))"

text \<open>
  \<^verbatim>\<open>LRUCache.popitem\<close>: the least recently used key is read with \<^verbatim>\<open>self[key]\<close> and
  deleted; an empty cache raises \<^verbatim>\<open>KeyError\<close>.
\<close>

definition LRUCache_popitem :: "lru \<Rightarrow> (pyerr + int \<times> obj) \<times> lru" where
  "LRUCache_popitem c =
     (case lru_order c of
        [] \<Rightarrow> (Inl KeyError, c)
      | k # ks \<Rightarrow>
          (case LRUCache_getitem k c of
             (Inl e, c') \<Rightarrow> (Inl e, c')
           | (Inr v, c') \<Rightarrow>
               (case LRUCache_delitem k c' of
                  (Inl e, c'') \<Rightarrow> (Inl e, c'')
                | (Inr u, c'') \<Rightarrow> (Inr (k, v), c''))))"

section \<open>Program state\<close>

text \<open>
  The attributes \<^verbatim>\<open>File.__new__\<close> stores on a File object. \<open>hsh\<close> is \<open>None\<close> until
  \<^verbatim>\<open>self.hsh = hsh\<close> has run; reading it before raises \<^verbatim>\<open>AttributeError\<close>.
\<close>

record file_attrs =
  init_args :: "pyval list"
  init_kwargs :: kwargs
  skip_cache :: pyval
  hsh :: "int option"

text \<open>
  The state: the module-level \<^verbatim>\<open>cache\<close>, the attributes of every File object, the next
  object identity \<^verbatim>\<open>object.__new__\<close> hands out, the native state, and a count of the
  calls of \<^verbatim>\<open>h5py.File.__init__\<close> made so far (the native opens).
\<close>

record 'w state =
  cache :: lru
  heap :: "obj \<Rightarrow> file_attrs"
  next_obj :: obj
  world :: 'w
  opens :: nat

definition blank_attrs :: file_attrs where
  "blank_attrs = \<lparr>init_args = [], init_kwargs = [], skip_cache = PBool False, hsh = None\<rparr>"

text \<open>\<^verbatim>\<open>cache = LRUFileCache(1000)\<close>\<close>

definition init_state :: "'w \<Rightarrow> 'w state" where
  "init_state w =
     \<lparr>cache = \<lparr>lru_data = [], lru_order = [], lru_maxsize = 1000\<rparr>,
      heap = (\<lambda>x. blank_attrs), next_obj = 0, world = w, opens = 0\<rparr>"

section \<open>\<^verbatim>\<open>File.close\<close>\<close>

text \<open>
  The two operands of \<^verbatim>\<open>cache[key] == self.hsh\<close>: a File object and an integer.
  An h5py object compares equal only to an h5py object with the same identifier.
\<close>

datatype operand = AFile obj | AnInt int

definition py_eq :: "operand \<Rightarrow> operand \<Rightarrow> bool" where
  "py_eq a b = (a = b)"

text \<open>
  \<^verbatim>\<open>for key in list(cache.keys()):
    if cache[key] == self.hsh:
        del cache[key]\<close>
\<close>

fun close_scan :: "int list \<Rightarrow> int option \<Rightarrow> lru \<Rightarrow> (pyerr + unit) \<times> lru" where
  "close_scan [] h c = (Inr (), c)"
| "close_scan (key # keys) h c =
     (case LRUCache_getitem key c of
        (Inl e, c') \<Rightarrow> (Inl e, c')
      | (Inr v, c') \<Rightarrow>
          (case h of
             None \<Rightarrow> (Inl AttributeError, c')
           | Some hv \<Rightarrow>
               if py_eq (AFile v) (AnInt hv) then
                 (case LRUCache_delitem key c' of
                    (Inl e, c'') \<Rightarrow> (Inl e, c'')
                  | (Inr u, c'') \<Rightarrow> close_scan keys h c'')
               else close_scan keys h c'))"

text \<open>
  \<^verbatim>\<open>def close(self):
    with lock:
        h5py.File.close(self)
        for key in list(cache.keys()): ...\<close>
\<close>

definition File_close :: "'w extern \<Rightarrow> obj \<Rightarrow> 'w state \<Rightarrow> (pyerr + unit) \<times> 'w state" where
  "File_close ext self s =
     (case h5py_File_close ext self (world s) of
        (Inl e, w) \<Rightarrow> (Inl e, s\<lparr>world := w\<rparr>)
      | (Inr u, w) \<Rightarrow>
          (case close_scan (map fst (lru_data (cache s))) (hsh (heap s self)) (cache s) of
             (r, c) \<Rightarrow> (r, s\<lparr>world := w, cache := c\<rparr>)))"

section \<open>\<^verbatim>\<open>LRUFileCache\<close>\<close>

text \<open>
  \<^verbatim>\<open>def popitem(self):
    key, val = LRUCache.popitem(self)
    try:
        val.close()
    except AttributeError:
        pass
    return key, val\<close>
  \<open>val_close\<close> is the \<^verbatim>\<open>close\<close> method of the evicted value; a value without one
  raises \<^verbatim>\<open>AttributeError\<close>.
\<close>

definition LRUFileCache_popitem ::
  "(obj \<Rightarrow> 'w state \<Rightarrow> (pyerr + unit) \<times> 'w state) \<Rightarrow> 'w state \<Rightarrow> (pyerr + int \<times> obj) \<times> 'w state"
where
  "LRUFileCache_popitem val_close s =
     (case LRUCache_popitem (cache s) of
        (Inl e, c) \<Rightarrow> (Inl e, s\<lparr>cache := c\<rparr>)
      | (Inr kv, c) \<Rightarrow>
          (case val_close (snd kv) (s\<lparr>cache := c\<rparr>) of
             (Inl e, s') \<Rightarrow> if e = AttributeError then (Inr kv, s') else (Inl e, s')
           | (Inr u, s') \<Rightarrow> (Inr kv, s')))"

text \<open>
  \<^verbatim>\<open>Cache.__setitem__\<close> makes room with
  \<^verbatim>\<open>while self.currsize + size > maxsize: self.popitem()\<close>;
  \<^verbatim>\<open>popitem\<close> is the override above and the values are File objects, whose
  \<^verbatim>\<open>close\<close> is \<open>File_close\<close>. The loop ends because \<open>File_close\<close> deletes nothing.
\<close>

lemma close_scan_data: "lru_data (snd (close_scan ks h c)) = lru_data c"
proof (induction ks arbitrary: c h)
  case Nil
  show ?case by simp
next
  case (Cons k ks)
  show ?case
    by (simp add: LRUCache_getitem_def py_eq_def Cons.IH split: option.splits)
qed

lemma close_scan_maxsize: "lru_maxsize (snd (close_scan ks h c)) = lru_maxsize c"
proof (induction ks arbitrary: c h)
  case Nil
  show ?case by simp
next
  case (Cons k ks)
  show ?case
    by (simp add: LRUCache_getitem_def py_eq_def Cons.IH split: option.splits)
qed

lemma delete_length: "map_of xs k = Some v \<Longrightarrow> length (AList.delete k xs) < length xs"
  by (induction xs) (auto simp: less_Suc_eq_le AList.delete_eq split: if_splits)

lemma LRUCache_popitem_length:
  "LRUCache_popitem c = (Inr kv, c') \<Longrightarrow> length (lru_data c') < length (lru_data c)"
  by (auto simp add: LRUCache_popitem_def LRUCache_getitem_def LRUCache_delitem_def
      delete_length split: list.splits option.splits)

lemma File_close_frame:
  "lru_data (cache (snd (File_close ext f s))) = lru_data (cache s) \<and>
   lru_maxsize (cache (snd (File_close ext f s))) = lru_maxsize (cache s) \<and>
   heap (snd (File_close ext f s)) = heap s \<and>
   next_obj (snd (File_close ext f s)) = next_obj s \<and>
   opens (snd (File_close ext f s)) = opens s"
proof (cases "h5py_File_close ext f (world s)")
  case (Pair r w)
  obtain r' c where cs:
    "close_scan (map fst (lru_data (cache s))) (hsh (heap s f)) (cache s) = (r', c)"
    by (cases "close_scan (map fst (lru_data (cache s))) (hsh (heap s f)) (cache s)")
  have "lru_data c = lru_data (cache s)" "lru_maxsize c = lru_maxsize (cache s)"
    using close_scan_data [of "map fst (lru_data (cache s))" "hsh (heap s f)" "cache s"]
      close_scan_maxsize [of "map fst (lru_data (cache s))" "hsh (heap s f)" "cache s"] cs
    by simp_all
  then show ?thesis using Pair cs
    by (cases r) (simp_all add: File_close_def)
qed

lemma LRUFileCache_popitem_length:
  assumes "LRUFileCache_popitem (File_close ext) s = (Inr kv, s')"
  shows "length (lru_data (cache s')) < length (lru_data (cache s))"
proof (cases "LRUCache_popitem (cache s)")
  case (Pair r c)
  show ?thesis
  proof (cases r)
    case (Inl e)
    with Pair assms show ?thesis by (simp add: LRUFileCache_popitem_def)
  next
    case (Inr kv')
    have len: "length (lru_data c) < length (lru_data (cache s))"
      using Pair Inr LRUCache_popitem_length by simp
    have "s' = snd (File_close ext (snd kv') (s\<lparr>cache := c\<rparr>))"
      using assms Pair Inr
      by (auto simp add: LRUFileCache_popitem_def split: prod.splits sum.splits if_splits)
    then have "lru_data (cache s') = lru_data c"
      using File_close_frame [of ext "snd kv'" "s\<lparr>cache := c\<rparr>"] by simp
    with len show ?thesis by simp
  qed
qed

function evict_while :: "'w extern \<Rightarrow> 'w state \<Rightarrow> (pyerr + unit) \<times> 'w state" where
  "evict_while ext s =
     (if lru_maxsize (cache s) < length (lru_data (cache s)) + 1 then
        (case LRUFileCache_popitem (File_close ext) s of
           (Inl e, s') \<Rightarrow> (Inl e, s')
         | (Inr kv, s') \<Rightarrow> evict_while ext s')
      else (Inr (), s))"
  by pat_completeness auto
termination
proof (relation "measure (\<lambda>(ext, s). length (lru_data (cache s)))")
  show "wf (measure (\<lambda>(ext :: 'w extern, s :: 'w state). length (lru_data (cache s))))"
    by simp
next
  fix ext :: "'w extern" and s s' :: "'w state" and x kv
  assume "(x, s') = LRUFileCache_popitem (File_close ext) s" and "x = Inr kv"
  then have "LRUFileCache_popitem (File_close ext) s = (Inr kv, s')" by simp
  then show "((ext, s'), (ext, s)) \<in> measure (\<lambda>(ext, s). length (lru_data (cache s)))"
    using LRUFileCache_popitem_length by simp
qed

text \<open>
  \<^verbatim>\<open>cache[key] = value\<close>: \<^verbatim>\<open>Cache.__setitem__\<close> (a value larger than the cache
  raises \<^verbatim>\<open>ValueError\<close>; room is made only for a new key), then the key becomes the
  most recent.
\<close>

definition LRUFileCache_setitem ::
  "'w extern \<Rightarrow> int \<Rightarrow> obj \<Rightarrow> 'w state \<Rightarrow> (pyerr + unit) \<times> 'w state"
where
  "LRUFileCache_setitem ext k v s =
     (if lru_maxsize (cache s) < 1 then (Inl ValueError, s)
      else
        (case (if lru_contains k (cache s) then (Inr (), s) else evict_while ext s) of
           (Inl e, s') \<Rightarrow> (Inl e, s')
         | (Inr u, s') \<Rightarrow>
             (Inr (),
              s'\<lparr>cache := (cache s')
                   \<lparr>lru_data := AList.update k v (lru_data (cache s')),
                    lru_order := removeAll k (lru_order (cache s')) @ [k]\<rparr>\<rparr>)))"

section \<open>\<^verbatim>\<open>File.__new__\<close>\<close>

text \<open>\<^verbatim>\<open>self.hsh = hsh\<close>\<close>

definition set_hsh :: "obj \<Rightarrow> int \<Rightarrow> 'w state \<Rightarrow> 'w state" where
  "set_hsh self h s = s\<lparr>heap := (heap s)(self := (heap s self)\<lparr>hsh := Some h\<rparr>)\<rparr>"

text \<open>
  The first branch of \<^verbatim>\<open>File.__new__\<close>:
  \<^verbatim>\<open>self = object.__new__(cls)
h5py.File.__init__(self, *args, **kwargs)
self.init_args = args
self.init_kwargs = kwargs
self.skip_cache = skip_cache
if not skip_cache:
    cache[hsh] = self\<close>
  followed by \<^verbatim>\<open>self.hsh = hsh\<close>.
\<close>

definition File_new_open ::
  "'w extern \<Rightarrow> pyval list \<Rightarrow> kwargs \<Rightarrow> pyval \<Rightarrow> int \<Rightarrow> 'w state \<Rightarrow> (pyerr + obj) \<times> 'w state"
where
  "File_new_open ext args kw skip h s =
     (case h5py_File_init ext (next_obj s) args kw (world s) of
        (Inl e, w) \<Rightarrow>
          (Inl e, s\<lparr>next_obj := Suc (next_obj s), world := w, opens := Suc (opens s)\<rparr>)
      | (Inr u, w) \<Rightarrow>
          (if truthy skip then
             (Inr (next_obj s),
              set_hsh (next_obj s) h
                (s\<lparr>next_obj := Suc (next_obj s), world := w, opens := Suc (opens s),
                   heap := (heap s)(next_obj s :=
                     \<lparr>init_args = args, init_kwargs = kw, skip_cache = skip, hsh = None\<rparr>)\<rparr>))
           else
             (case LRUFileCache_setitem ext h (next_obj s)
                     (s\<lparr>next_obj := Suc (next_obj s), world := w, opens := Suc (opens s),
                        heap := (heap s)(next_obj s :=
                          \<lparr>init_args = args, init_kwargs = kw, skip_cache = skip, hsh = None\<rparr>)\<rparr>) of
                (Inl e, s') \<Rightarrow> (Inl e, s')
              | (Inr u', s') \<Rightarrow> (Inr (next_obj s), set_hsh (next_obj s) h s'))))"

text \<open>
  \<^verbatim>\<open>def __new__(cls, *args, **kwargs):
    with lock:
        skip_cache = kwargs.pop('skip_cache', False)
        hsh = arghash(*args, **kwargs)
        if skip_cache or hsh not in cache:
            ...
        else:
            self = cache[hsh]
        self.hsh = hsh
        return self\<close>
  \<^verbatim>\<open>File.__init__\<close>, which Python calls on the result, does nothing.
\<close>

definition File_new ::
  "'w extern \<Rightarrow> pyval list \<Rightarrow> kwargs \<Rightarrow> 'w state \<Rightarrow> (pyerr + obj) \<times> 'w state"
where
  "File_new ext args kwargs s =
     (case dict_pop ''skip_cache'' (PBool False) kwargs of
        (skip, kw) \<Rightarrow>
          (case arghash ext args kw of
             Inl e \<Rightarrow> (Inl e, s)
           | Inr h \<Rightarrow>
               if truthy skip \<or> \<not> lru_contains h (cache s) then
                 File_new_open ext args kw skip h s
               else
                 (case LRUCache_getitem h (cache s) of
                    (Inl e, c) \<Rightarrow> (Inl e, s\<lparr>cache := c\<rparr>)
                  | (Inr self, c) \<Rightarrow> (Inr self, set_hsh self h (s\<lparr>cache := c\<rparr>)))))"

section \<open>Proxies: \<^verbatim>\<open>h5py_wrap_type\<close>, \<^verbatim>\<open>File.__getitem__\<close>, \<^verbatim>\<open>Group\<close>, \<^verbatim>\<open>Dataset\<close>\<close>

text \<open>
  The values found in the attribute dictionaries of the proxies: strings, the native
  dataset a \<^verbatim>\<open>Dataset\<close> holds, and a reference to a File object.
\<close>

datatype attr_val = AStr string | ANative h5dataset | AFileRef obj

text \<open>
  A \<^verbatim>\<open>Dataset\<close> is its instance dictionary \<^verbatim>\<open>__dict__\<close>: the class is a plain Python
  class, and which attributes an instance has decides what an access does.
\<close>

type_synonym dataset_proxy = "(string \<times> attr_val) list"

text \<open>
  A \<^verbatim>\<open>Group\<close> of this module: its native identifier and name, and the attribute
  \<^verbatim>\<open>file_info\<close>, which is missing (\<open>None\<close>) until \<^verbatim>\<open>__getitem__\<close> sets it.
\<close>

record group_proxy =
  group_id :: nat
  group_name :: string
  file_info :: "obj option"

datatype wrapped = WDataset dataset_proxy | WGroup group_proxy | WOther h5obj

text \<open>
  \<^verbatim>\<open>def __init__(self, dataset):
    self.file_name = dataset.file.id.name.decode('utf-8')
    self.file_mode = dataset.file.mode
    self.dataset_name = dataset.name
    self.dataset = dataset\<close>
\<close>

definition Dataset_init :: "h5dataset \<Rightarrow> dataset_proxy" where
  "Dataset_init d =
     [(''file_name'', AStr (ds_file_name d)), (''file_mode'', AStr (ds_file_mode d)),
      (''dataset_name'', AStr (ds_name d)), (''dataset'', ANative d)]"

text \<open>
  \<^verbatim>\<open>h5py.File\<close> is a subclass of \<^verbatim>\<open>h5py.Group\<close>, so the test
  \<^verbatim>\<open>isinstance(obj, h5py.Group)\<close> takes a native file before the branch for
  \<^verbatim>\<open>h5py.File\<close> is reached.
\<close>

fun h5py_wrap_type :: "h5obj \<Rightarrow> wrapped" where
  "h5py_wrap_type (H5Dataset d) = WDataset (Dataset_init d)"
| "h5py_wrap_type (H5Group i n) = WGroup \<lparr>group_id = i, group_name = n, file_info = None\<rparr>"
| "h5py_wrap_type (H5File i n) = WGroup \<lparr>group_id = i, group_name = n, file_info = None\<rparr>"
| "h5py_wrap_type (H5Datatype i) = WOther (H5Datatype i)"
| "h5py_wrap_type (H5Other v) = WOther (H5Other v)"

text \<open>
  \<^verbatim>\<open>def __getitem__(self, name):
    obj = h5py_wrap_type(h5py.Group.__getitem__(self, name))
    if isinstance(obj, Group):
        obj.file_info = self
    return obj\<close>
\<close>

definition File_getitem ::
  "'w extern \<Rightarrow> obj \<Rightarrow> string \<Rightarrow> 'w state \<Rightarrow> (pyerr + wrapped) \<times> 'w state"
where
  "File_getitem ext self name s =
     (case h5py_Group_getitem ext (OfFile self) name (world s) of
        (Inl e, w) \<Rightarrow> (Inl e, s\<lparr>world := w\<rparr>)
      | (Inr x, w) \<Rightarrow>
          (case h5py_wrap_type x of
             WGroup g \<Rightarrow> (Inr (WGroup (g\<lparr>file_info := Some self\<rparr>)), s\<lparr>world := w\<rparr>)
           | WDataset d \<Rightarrow> (Inr (WDataset d), s\<lparr>world := w\<rparr>)
           | WOther y \<Rightarrow> (Inr (WOther y), s\<lparr>world := w\<rparr>)))"

text \<open>
  \<^verbatim>\<open>Group.__getitem__\<close> copies \<^verbatim>\<open>self.file_info\<close>, which raises
  \<^verbatim>\<open>AttributeError\<close> when the attribute was never set.
\<close>

definition Group_getitem ::
  "'w extern \<Rightarrow> group_proxy \<Rightarrow> string \<Rightarrow> 'w state \<Rightarrow> (pyerr + wrapped) \<times> 'w state"
where
  "Group_getitem ext self name s =
     (case h5py_Group_getitem ext (OfGroup (group_id self)) name (world s) of
        (Inl e, w) \<Rightarrow> (Inl e, s\<lparr>world := w\<rparr>)
      | (Inr x, w) \<Rightarrow>
          (case h5py_wrap_type x of
             WGroup g \<Rightarrow>
               (case file_info self of
                  None \<Rightarrow> (Inl AttributeError, s\<lparr>world := w\<rparr>)
                | Some f \<Rightarrow> (Inr (WGroup (g\<lparr>file_info := Some f\<rparr>)), s\<lparr>world := w\<rparr>))
           | WDataset d \<Rightarrow> (Inr (WDataset d), s\<lparr>world := w\<rparr>)
           | WOther y \<Rightarrow> (Inr (WOther y), s\<lparr>world := w\<rparr>)))"

text \<open>
  Reading \<^verbatim>\<open>self.file_name\<close>, \<^verbatim>\<open>self.file_mode\<close> or \<^verbatim>\<open>self.dataset_name\<close> inside a
  method of \<^verbatim>\<open>Dataset\<close>. The class defines none of these names, so a name missing from
  the instance dictionary goes to \<^verbatim>\<open>__getattr__\<close>, whose first line reads
  \<^verbatim>\<open>self.file_name\<close> again: the lookup never ends and Python raises
  \<^verbatim>\<open>RecursionError\<close>.
\<close>

definition self_attr :: "dataset_proxy \<Rightarrow> string \<Rightarrow> pyerr + attr_val" where
  "self_attr self name =
     (case map_of self name of
        None \<Rightarrow> Inl RecursionError
      | Some v \<Rightarrow> Inr v)"

text \<open>An attribute value passed on as an argument; only a string is JSON-serializable.\<close>

fun as_pyval :: "attr_val \<Rightarrow> pyval" where
  "as_pyval (AStr x) = PStr x"
| "as_pyval (ANative d) = PObject (ds_id d)"
| "as_pyval (AFileRef f) = PObject f"

text \<open>
  The first line of \<^verbatim>\<open>Dataset.__getattr__\<close>, \<^verbatim>\<open>Dataset.__getitem__\<close> and the last of
  \<^verbatim>\<open>Dataset.__setstate__\<close>:
  \<^verbatim>\<open>self = File(self.file_name, mode=self.file_mode)[self.dataset_name]\<close>
  The call of \<^verbatim>\<open>File\<close> is evaluated before \<^verbatim>\<open>self.dataset_name\<close> is read; h5py
  raises \<^verbatim>\<open>TypeError\<close> for a name that is not a string. The assignment binds the local
  variable only.
\<close>

definition Dataset_reopen ::
  "'w extern \<Rightarrow> dataset_proxy \<Rightarrow> 'w state \<Rightarrow> (pyerr + wrapped) \<times> 'w state"
where
  "Dataset_reopen ext self s =
     (case self_attr self ''file_name'' of
        Inl e \<Rightarrow> (Inl e, s)
      | Inr fn \<Rightarrow>
          (case self_attr self ''file_mode'' of
             Inl e \<Rightarrow> (Inl e, s)
           | Inr fm \<Rightarrow>
               (case File_new ext [as_pyval fn] [(''mode'', as_pyval fm)] s of
                  (Inl e, s1) \<Rightarrow> (Inl e, s1)
                | (Inr f, s1) \<Rightarrow>
                    (case self_attr self ''dataset_name'' of
                       Inl e \<Rightarrow> (Inl e, s1)
                     | Inr dn \<Rightarrow>
                         (case dn of
                            AStr n \<Rightarrow> File_getitem ext f n s1
                          | ANative d \<Rightarrow> (Inl TypeError, s1)
                          | AFileRef g \<Rightarrow> (Inl TypeError, s1))))))"

text \<open>
  \<^verbatim>\<open>self.dataset\<close> on what the first line has bound to \<^verbatim>\<open>self\<close>. A \<^verbatim>\<open>Dataset\<close> made
  by \<^verbatim>\<open>h5py_wrap_type\<close> holds its native dataset; a \<^verbatim>\<open>Group\<close> or any other object has
  no attribute \<^verbatim>\<open>dataset\<close> and the lookup raises \<^verbatim>\<open>AttributeError\<close>.
\<close>

definition wrapped_dataset :: "wrapped \<Rightarrow> pyerr + h5dataset" where
  "wrapped_dataset x =
     (case x of
        WDataset d \<Rightarrow>
          (case map_of d ''dataset'' of
             Some (ANative nd) \<Rightarrow> Inr nd
           | Some (AStr y) \<Rightarrow> Inl AttributeError
           | Some (AFileRef g) \<Rightarrow> Inl AttributeError
           | None \<Rightarrow> Inl RecursionError)
      | WGroup g \<Rightarrow> Inl AttributeError
      | WOther y \<Rightarrow> Inl AttributeError)"

text \<open>
  The method \<^verbatim>\<open>Dataset.__getattr__\<close>:
  \<^verbatim>\<open>def __getattr__(self, name):
    self = File(self.file_name, mode=self.file_mode)[self.dataset_name]
    return getattr(self.dataset, name)\<close>
\<close>

definition Dataset_getattr ::
  "'w extern \<Rightarrow> dataset_proxy \<Rightarrow> string \<Rightarrow> 'w state \<Rightarrow> (pyerr + pyval) \<times> 'w state"
where
  "Dataset_getattr ext self name s =
     (case Dataset_reopen ext self s of
        (Inl e, s1) \<Rightarrow> (Inl e, s1)
      | (Inr x, s1) \<Rightarrow>
          (case wrapped_dataset x of
             Inl e \<Rightarrow> (Inl e, s1)
           | Inr nd \<Rightarrow>
               (case h5py_Dataset_getattr ext nd name (world s1) of
                  (r, w) \<Rightarrow> (r, s1\<lparr>world := w\<rparr>))))"

text \<open>
  The element access \<^verbatim>\<open>d[item]\<close>, which Python sends to the method of the class:
  \<^verbatim>\<open>def __getitem__(self, item):
    self = File(self.file_name, mode=self.file_mode)[self.dataset_name]
    return self.dataset[item]\<close>
\<close>

definition Dataset_getitem ::
  "'w extern \<Rightarrow> dataset_proxy \<Rightarrow> pyval \<Rightarrow> 'w state \<Rightarrow> (pyerr + pyval) \<times> 'w state"
where
  "Dataset_getitem ext self item s =
     (case Dataset_reopen ext self s of
        (Inl e, s1) \<Rightarrow> (Inl e, s1)
      | (Inr x, s1) \<Rightarrow>
          (case wrapped_dataset x of
             Inl e \<Rightarrow> (Inl e, s1)
           | Inr nd \<Rightarrow>
               (case h5py_Dataset_getitem ext nd item (world s1) of
                  (r, w) \<Rightarrow> (r, s1\<lparr>world := w\<rparr>))))"

text \<open>
  The attribute access \<^verbatim>\<open>d.name\<close>. Python looks the name up in the instance dictionary
  and on the class, and calls \<^verbatim>\<open>__getattr__\<close> only when both fail. \<open>on_class\<close> tells
  which names the class \<^verbatim>\<open>Dataset\<close> and its base \<^verbatim>\<open>object\<close> provide (the methods,
  \<^verbatim>\<open>__dict__\<close>, \<^verbatim>\<open>__class__\<close> and so on); it is a parameter, since the set depends on
  the Python version. An access that ends in the dictionary or on the class touches
  neither the cache nor the file.
\<close>

datatype attr_result = Stored attr_val | ClassAttr string | Delegated pyval

definition Dataset_attribute ::
  "(string \<Rightarrow> bool) \<Rightarrow> 'w extern \<Rightarrow> dataset_proxy \<Rightarrow> string \<Rightarrow> 'w state
     \<Rightarrow> (pyerr + attr_result) \<times> 'w state"
where
  "Dataset_attribute on_class ext self name s =
     (case map_of self name of
        Some v \<Rightarrow> (Inr (Stored v), s)
      | None \<Rightarrow>
          if on_class name then (Inr (ClassAttr name), s)
          else
            (case Dataset_getattr ext self name s of
               (Inl e, s1) \<Rightarrow> (Inl e, s1)
             | (Inr v, s1) \<Rightarrow> (Inr (Delegated v), s1)))"

section \<open>Pickling\<close>

text \<open>
  \<^verbatim>\<open>def __getstate__(self):
    state = self.__dict__.copy()
    del state['dataset']
    return state\<close>
  The deletion raises \<^verbatim>\<open>KeyError\<close> when the instance has no attribute \<^verbatim>\<open>dataset\<close>.
\<close>

definition Dataset_getstate :: "dataset_proxy \<Rightarrow> pyerr + (string \<times> attr_val) list" where
  "Dataset_getstate self =
     (case map_of self ''dataset'' of
        None \<Rightarrow> Inl KeyError
      | Some v \<Rightarrow> Inr (AList.delete ''dataset'' self))"

text \<open>\<^verbatim>\<open>d.update(state)\<close> on dictionaries.\<close>

fun dict_update :: "(string \<times> attr_val) list \<Rightarrow> (string \<times> attr_val) list \<Rightarrow> (string \<times> attr_val) list" where
  "dict_update d [] = d"
| "dict_update d (kv # kvs) = dict_update (AList.update (fst kv) (snd kv) d) kvs"

text \<open>
  \<^verbatim>\<open>def __setstate__(self, state):
    self.__dict__.update(state)
    self = File(self.file_name, mode=self.file_mode)[self.dataset_name]\<close>
  The second line opens the file and looks the dataset up, but binds the result to the
  local variable: the instance keeps the dictionary of the first line. The result is that
  dictionary. Unpickling calls the method on a new instance, whose dictionary is empty.
\<close>

definition Dataset_setstate ::
  "'w extern \<Rightarrow> dataset_proxy \<Rightarrow> (string \<times> attr_val) list \<Rightarrow> 'w state
     \<Rightarrow> (pyerr + dataset_proxy) \<times> 'w state"
where
  "Dataset_setstate ext self st s =
     (case Dataset_reopen ext (dict_update self st) s of
        (Inl e, s1) \<Rightarrow> (Inl e, s1)
      | (Inr x, s1) \<Rightarrow> (Inr (dict_update self st), s1))"

text \<open>\<^verbatim>\<open>return {'name': self.name, 'file': self.file_info}\<close>\<close>

definition Group_getstate :: "group_proxy \<Rightarrow> pyerr + (string \<times> attr_val) list" where
  "Group_getstate g =
     (case file_info g of
        None \<Rightarrow> Inl AttributeError
      | Some f \<Rightarrow> Inr [(''name'', AStr (group_name g)), (''file'', AFileRef f)])"

text \<open>
  \<^verbatim>\<open>def __getnewargs_ex__(self):
    kwargs = self.init_kwargs.copy()
    kwargs['skip_cache'] = self.skip_cache
    return self.init_args, kwargs\<close>
\<close>

definition File_getnewargs_ex :: "file_attrs \<Rightarrow> pyval list \<times> kwargs" where
  "File_getnewargs_ex a =
     (init_args a, AList.update ''skip_cache'' (skip_cache a) (init_kwargs a))"

text \<open>
  What pickle writes. A File is written as the arguments of \<^verbatim>\<open>__getnewargs_ex__\<close>
  (\<^verbatim>\<open>File.__getstate__\<close> returns \<^verbatim>\<open>None\<close>, so no state follows); a state dictionary
  is written entry by entry; a native h5py object refuses to be pickled.
\<close>

datatype pickled = PkStr string | PkFile "pyval list" kwargs | PkState "(string \<times> pickled) list"

fun pickle_val :: "(obj \<Rightarrow> file_attrs) \<Rightarrow> attr_val \<Rightarrow> pyerr + pickled" where
  "pickle_val hp (AStr x) = Inr (PkStr x)"
| "pickle_val hp (ANative d) = Inl TypeError"
| "pickle_val hp (AFileRef f) =
     (case File_getnewargs_ex (hp f) of (args, kw) \<Rightarrow> Inr (PkFile args kw))"

fun pickle_state :: "(obj \<Rightarrow> file_attrs) \<Rightarrow> (string \<times> attr_val) list \<Rightarrow> pyerr + (string \<times> pickled) list" where
  "pickle_state hp [] = Inr []"
| "pickle_state hp (kv # kvs) =
     (case pickle_val hp (snd kv) of
        Inl e \<Rightarrow> Inl e
      | Inr p \<Rightarrow>
          (case pickle_state hp kvs of
             Inl e \<Rightarrow> Inl e
           | Inr ps \<Rightarrow> Inr ((fst kv, p) # ps)))"

definition pickle_File :: "(obj \<Rightarrow> file_attrs) \<Rightarrow> obj \<Rightarrow> pyerr + pickled" where
  "pickle_File hp f = pickle_val hp (AFileRef f)"

definition pickle_Dataset :: "(obj \<Rightarrow> file_attrs) \<Rightarrow> dataset_proxy \<Rightarrow> pyerr + pickled" where
  "pickle_Dataset hp d =
     (case Dataset_getstate d of
        Inl e \<Rightarrow> Inl e
      | Inr st \<Rightarrow>
          (case pickle_state hp st of
             Inl e \<Rightarrow> Inl e
           | Inr ps \<Rightarrow> Inr (PkState ps)))"

text \<open>
  \<^verbatim>\<open>Group\<close> is a subclass of \<^verbatim>\<open>h5py.Group\<close> and defines no \<^verbatim>\<open>__getnewargs_ex__\<close>, so
  pickle first calls the \<^verbatim>\<open>__getnewargs__\<close> it inherits from h5py, and only then
  \<^verbatim>\<open>__getstate__\<close>. \<open>refuse\<close> is what h5py does there: \<open>Some e\<close> when its method
  raises \<open>e\<close> (h5py raises \<^verbatim>\<open>TypeError\<close>: its objects cannot be pickled), \<open>None\<close>
  for an h5py without such a method.
\<close>

definition pickle_Group ::
  "pyerr option \<Rightarrow> (obj \<Rightarrow> file_attrs) \<Rightarrow> group_proxy \<Rightarrow> pyerr + pickled"
where
  "pickle_Group refuse hp g =
     (case refuse of
        Some e \<Rightarrow> Inl e
      | None \<Rightarrow>
          (case Group_getstate g of
             Inl e \<Rightarrow> Inl e
           | Inr st \<Rightarrow>
               (case pickle_state hp st of
                  Inl e \<Rightarrow> Inl e
                | Inr ps \<Rightarrow> Inr (PkState ps))))"

text \<open>
  Unpickling a File calls \<^verbatim>\<open>File.__new__(File, *args, **kwargs)\<close> with the pickled
  arguments.
\<close>

definition File_unpickle ::
  "'w extern \<Rightarrow> pickled \<Rightarrow> 'w state \<Rightarrow> (pyerr + obj) \<times> 'w state"
where
  "File_unpickle ext p s =
     (case p of
        PkFile args kw \<Rightarrow> File_new ext args kw s
      | PkStr x \<Rightarrow> (Inl TypeError, s)
      | PkState st \<Rightarrow> (Inl TypeError, s))"

section \<open>Notions used in the properties\<close>

text \<open>A value is JSON-serializable when \<^verbatim>\<open>json.dumps\<close> returns a string for it.\<close>

definition json_serializable :: "pyval \<Rightarrow> bool" where
  "json_serializable v = (case dumps False v of Inl e \<Rightarrow> False | Inr x \<Rightarrow> True)"

text \<open>
  The three values \<^verbatim>\<open>File.__new__\<close> computes first for a call: the flag
  \<^verbatim>\<open>skip_cache\<close> popped from the keyword arguments, the keyword arguments that
  remain, and the key \<^verbatim>\<open>arghash\<close> returns for them.
\<close>

definition File_flag :: "kwargs \<Rightarrow> pyval" where
  "File_flag kwargs = fst (dict_pop ''skip_cache'' (PBool False) kwargs)"

definition File_kwargs :: "kwargs \<Rightarrow> kwargs" where
  "File_kwargs kwargs = snd (dict_pop ''skip_cache'' (PBool False) kwargs)"

definition File_key :: "'w extern \<Rightarrow> pyval list \<Rightarrow> kwargs \<Rightarrow> pyerr + int" where
  "File_key ext args kwargs = arghash ext args (File_kwargs kwargs)"

text \<open>
  What \<^verbatim>\<open>File.__new__\<close> and \<^verbatim>\<open>File.close\<close> keep true of the cache: every entry holds
  an object that exists, was created without \<^verbatim>\<open>skip_cache\<close>, has the entry's key as its
  \<^verbatim>\<open>hsh\<close>, and whose stored arguments hash to that key.
\<close>

definition cache_inv :: "'w extern \<Rightarrow> 'w state \<Rightarrow> bool" where
  "cache_inv ext s =
     (\<forall>(k, f) \<in> set (lru_data (cache s)).
        f < next_obj s \<and>
        hsh (heap s f) = Some k \<and>
        \<not> truthy (skip_cache (heap s f)) \<and>
        map_of (init_kwargs (heap s f)) ''skip_cache'' = None \<and>
        arghash ext (init_args (heap s f)) (init_kwargs (heap s f)) = Inr k)"

text \<open>
  The order of use and the dictionary of a cache hold the same keys.
\<close>

definition lru_wf :: "lru \<Rightarrow> bool" where
  "lru_wf c = (set (lru_order c) = fst ` set (lru_data c))"

text \<open>
  The native close of a file either succeeds or raises \<^verbatim>\<open>AttributeError\<close>.
\<close>

definition close_ok :: "'w extern \<Rightarrow> bool" where
  "close_ok ext =
     (\<forall>f w. fst (h5py_File_close ext f w) = Inr () \<or>
            fst (h5py_File_close ext f w) = Inl AttributeError)"

text \<open>
  A small instance of the outside world, to run the model on concrete inputs. The native
  state is the list of File objects whose native file is open. Every open succeeds;
  closing removes the object from the list; a lookup through a closed file raises
  \<^verbatim>\<open>ValueError\<close>, the name \<open>x\<close> is a dataset, any other name is missing. The hash
  is the length of the string.
\<close>

definition test_dataset :: h5dataset where
  "test_dataset = \<lparr>ds_file_name = ''a.h5'', ds_file_mode = ''r'', ds_name = ''x'', ds_id = 0\<rparr>"

definition test_ext :: "obj list extern" where
  "test_ext =
     \<lparr>py_hash = (\<lambda>x. int (length x)),
      h5py_File_init = (\<lambda>f args kw w. (Inr (), f # w)),
      h5py_File_close = (\<lambda>f w. (Inr (), removeAll f w)),
      h5py_Group_getitem = (\<lambda>r name w.
         case r of
           OfFile f \<Rightarrow>
             if f \<in> set w then
               (if name = ''x'' then (Inr (H5Dataset test_dataset), w) else (Inl KeyError, w))
             else (Inl ValueError, w)
         | OfGroup g \<Rightarrow> (Inl KeyError, w)),
      h5py_Dataset_getattr = (\<lambda>d name w. (Inr (PStr (ds_name d @ ''.'' @ name)), w)),
      h5py_Dataset_getitem = (\<lambda>d item w. (Inr item, w))\<rparr>"

text \<open>The same world, except that closing a native file fails.\<close>

definition failing_ext :: "obj list extern" where
  "failing_ext = test_ext\<lparr>h5py_File_close := (\<lambda>f w. (Inl OSError, w))\<rparr>"

text \<open>An empty cache of capacity \<open>n\<close>: \<^verbatim>\<open>LRUFileCache(n)\<close>.\<close>

definition small_state :: "nat \<Rightarrow> obj list state" where
  "small_state n =
     \<lparr>cache = \<lparr>lru_data = [], lru_order = [], lru_maxsize = n\<rparr>,
      heap = (\<lambda>x. blank_attrs), next_obj = 0, world = [], opens = 0\<rparr>"

text \<open>The \<^verbatim>\<open>close\<close> of a value that has no such method.\<close>

definition no_close :: "obj \<Rightarrow> obj list state \<Rightarrow> (pyerr + unit) \<times> obj list state" where
  "no_close v s = (Inl AttributeError, s)"

text \<open>
  A cache of capacity 1 after \<^verbatim>\<open>File('a.h5', mode='r')\<close> and \<^verbatim>\<open>File('bb.h5')\<close>: the
  second construction has evicted and closed the first file.
\<close>

definition evicted_state :: "obj list state" where
  "evicted_state =
     snd (File_new test_ext [PStr ''bb.h5''] []
       (snd (File_new test_ext [PStr ''a.h5''] [(''mode'', PStr ''r'')] (small_state 1))))"

text \<open>
  The names every Python 3 finds on the class \<^verbatim>\<open>Dataset\<close>: those its class statement
  defines and those of \<^verbatim>\<open>object\<close>.
\<close>

definition Dataset_class_names :: "string list" where
  "Dataset_class_names =
     [''__init__'', ''__getstate__'', ''__setstate__'', ''__getattr__'', ''__getitem__'',
      ''__dict__'', ''__doc__'', ''__module__'', ''__weakref__'', ''__class__'',
      ''__delattr__'', ''__dir__'', ''__eq__'', ''__format__'', ''__ge__'',
      ''__getattribute__'', ''__gt__'', ''__hash__'', ''__init_subclass__'', ''__le__'',
      ''__lt__'', ''__ne__'', ''__new__'', ''__reduce__'', ''__reduce_ex__'', ''__repr__'',
      ''__setattr__'', ''__sizeof__'', ''__str__'', ''__subclasshook__'']"

definition on_Dataset_class :: "string \<Rightarrow> bool" where
  "on_Dataset_class name = (name \<in> set Dataset_class_names)"

section \<open>Basic facts\<close>

subsection \<open>Serialisation and keyword arguments\<close>

lemma dumps_error_TypeError:
  "dumps sk v = Inl e \<Longrightarrow> e = TypeError"
  "dumps_list sk vs = Inl e \<Longrightarrow> e = TypeError"
  "dumps_items sk kvs = Inl e \<Longrightarrow> e = TypeError"
  by (induction sk v and sk vs and sk kvs arbitrary: e and e and e rule: dumps_dumps_list_dumps_items.induct)
    (auto split: sum.splits)

lemma dumps_isl_sort:
  "isl (dumps sk v) = isl (dumps False v)"
  "isl (dumps_list sk vs) = isl (dumps_list False vs)"
  "isl (dumps_items sk kvs) = isl (dumps_items False kvs)"
  by (induction sk v and sk vs and sk kvs rule: dumps_dumps_list_dumps_items.induct)
    (auto split: sum.splits)

lemma dumps_list_fails:
  "a \<in> set vs \<Longrightarrow> isl (dumps sk a) \<Longrightarrow> isl (dumps_list sk vs)"
  by (induction vs) (auto split: sum.splits)

lemma dumps_items_fails:
  "kv \<in> set kvs \<Longrightarrow> isl (dumps sk (snd kv)) \<Longrightarrow> isl (dumps_items sk kvs)"
  by (induction kvs) (auto split: sum.splits)

lemma arghash_bad_arg:
  assumes "a \<in> set args" and "\<not> json_serializable a"
  shows "arghash ext args kw = Inl TypeError"
proof -
  have "isl (dumps False a)" using assms(2) by (simp add: json_serializable_def split: sum.splits)
  then have "isl (dumps_list False args)" using assms(1) dumps_list_fails by blast
  then obtain e where "dumps_list False args = Inl e" by (cases "dumps_list False args") auto
  moreover from this have "e = TypeError" by (rule dumps_error_TypeError)
  ultimately show ?thesis by (simp add: arghash_def)
qed

lemma arghash_bad_kwarg:
  assumes "kv \<in> set kw" and "\<not> json_serializable (snd kv)"
  shows "arghash ext args kw = Inl TypeError"
proof -
  have "isl (dumps False (snd kv))" using assms(2) by (simp add: json_serializable_def split: sum.splits)
  then have "isl (dumps True (snd kv))" using dumps_isl_sort(1) by blast
  then have "isl (dumps_items True kw)" using assms(1) dumps_items_fails by blast
  then obtain e where e: "dumps_items True kw = Inl e" by (cases "dumps_items True kw") auto
  then have "dumps True (PDict kw) = Inl e" by simp
  moreover from e have "e = TypeError" by (rule dumps_error_TypeError)
  ultimately have k: "dumps True (PDict kw) = Inl TypeError" by simp
  show ?thesis
  proof (cases "dumps False (PTuple args)")
    case (Inl e')
    then have "e' = TypeError" by (rule dumps_error_TypeError)
    with Inl show ?thesis by (simp add: arghash_def)
  next
    case (Inr x)
    with k show ?thesis by (simp add: arghash_def)
  qed
qed


lemma dict_pop_no_key: "map_of (snd (dict_pop k d kw)) k = None"
  by (auto simp: dict_pop_def delete_conv' split: option.splits)

lemma dict_pop_update:
  "dict_pop k d (AList.update k v kw) = (v, AList.delete k kw)"
  by (simp add: dict_pop_def update_conv' delete_update_same)

lemma dict_pop_snd_delete: "snd (dict_pop k d kw) = AList.delete k kw"
  by (auto simp: dict_pop_def delete_id map_of_eq_None_iff split: option.splits)

subsection \<open>What eviction and insertion leave unchanged\<close>

lemma LRUCache_popitem_frame:
  "LRUCache_popitem c = (r, c') \<Longrightarrow>
     set (lru_data c') \<subseteq> set (lru_data c) \<and> lru_maxsize c' = lru_maxsize c"
  by (auto simp add: LRUCache_popitem_def LRUCache_getitem_def LRUCache_delitem_def
      AList.delete_eq split: list.splits option.splits)

lemma LRUFileCache_popitem_frame:
  assumes "LRUFileCache_popitem (File_close ext) s = (r, s')"
  shows "set (lru_data (cache s')) \<subseteq> set (lru_data (cache s)) \<and>
         lru_maxsize (cache s') = lru_maxsize (cache s) \<and>
         heap s' = heap s \<and> next_obj s' = next_obj s \<and> opens s' = opens s"
proof (cases "LRUCache_popitem (cache s)")
  case (Pair q c)
  note fr = LRUCache_popitem_frame [OF Pair]
  show ?thesis
  proof (cases q)
    case (Inl e)
    with Pair assms fr show ?thesis by (auto simp add: LRUFileCache_popitem_def)
  next
    case (Inr kv)
    have "s' = snd (File_close ext (snd kv) (s\<lparr>cache := c\<rparr>))"
      using assms Pair Inr
      by (auto simp add: LRUFileCache_popitem_def split: prod.splits sum.splits if_splits)
    then show ?thesis
      using File_close_frame [of ext "snd kv" "s\<lparr>cache := c\<rparr>"] fr by auto
  qed
qed

lemma evict_while_frame:
  "evict_while ext s = (r, s') \<Longrightarrow>
     set (lru_data (cache s')) \<subseteq> set (lru_data (cache s)) \<and>
     lru_maxsize (cache s') = lru_maxsize (cache s) \<and>
     heap s' = heap s \<and> next_obj s' = next_obj s \<and> opens s' = opens s"
proof (induction ext s arbitrary: r s' rule: evict_while.induct)
  case (1 ext s)
  show ?case
  proof (cases "lru_maxsize (cache s) < length (lru_data (cache s)) + 1")
    case False
    with "1.prems" show ?thesis by (simp add: evict_while.simps [of ext s])
  next
    case True
    obtain q t where p: "LRUFileCache_popitem (File_close ext) s = (q, t)"
      by (cases "LRUFileCache_popitem (File_close ext) s")
    note fr = LRUFileCache_popitem_frame [OF p]
    show ?thesis
    proof (cases q)
      case (Inl e)
      with True p "1.prems" have "s' = t" by (simp add: evict_while.simps [of ext s])
      with fr show ?thesis by simp
    next
      case (Inr kv)
      with True p "1.prems" have "evict_while ext t = (r, s')"
        by (simp add: evict_while.simps [of ext s])
      from "1.IH" [OF True p [symmetric] Inr this] fr show ?thesis by auto
    qed
  qed
qed

lemma update_subset_insert: "set (AList.update k v xs) \<subseteq> insert (k, v) (set xs)"
  by (induction xs) auto

lemma LRUFileCache_setitem_frame:
  assumes "LRUFileCache_setitem ext k v s = (r, s')"
  shows "set (lru_data (cache s')) \<subseteq> insert (k, v) (set (lru_data (cache s))) \<and>
         heap s' = heap s \<and> next_obj s' = next_obj s \<and> opens s' = opens s \<and>
         (r = Inr () \<longrightarrow> map_of (lru_data (cache s')) k = Some v) \<and>
         (r \<noteq> Inr () \<longrightarrow> set (lru_data (cache s')) \<subseteq> set (lru_data (cache s)))"
proof (cases "lru_maxsize (cache s) < 1")
  case True
  with assms show ?thesis by (auto simp add: LRUFileCache_setitem_def)
next
  case False
  obtain q t where e: "(if lru_contains k (cache s) then (Inr (), s) else evict_while ext s) = (q, t)"
    by (cases "(if lru_contains k (cache s) then (Inr (), s) else evict_while ext s)")
  have fr: "set (lru_data (cache t)) \<subseteq> set (lru_data (cache s)) \<and>
     heap t = heap s \<and> next_obj t = next_obj s \<and> opens t = opens s"
    using e evict_while_frame [of ext s q t] by (auto split: if_splits)
  show ?thesis
  proof (cases q)
    case (Inl err)
    with False e assms have "s' = t" "r = Inl err" by (auto simp add: LRUFileCache_setitem_def)
    with fr show ?thesis by auto
  next
    case (Inr u)
    with False e assms have s': "s' = t\<lparr>cache := (cache t)
                   \<lparr>lru_data := AList.update k v (lru_data (cache t)),
                    lru_order := removeAll k (lru_order (cache t)) @ [k]\<rparr>\<rparr>"
      and r: "r = Inr ()"
      by (auto simp add: LRUFileCache_setitem_def)
    have "set (AList.update k v (lru_data (cache t))) \<subseteq> insert (k, v) (set (lru_data (cache t)))"
      by (rule update_subset_insert) 
    with s' r fr show ?thesis by (auto simp add: update_conv')
  qed
qed

subsection \<open>Opening a file\<close>

lemma File_new_open_result:
  assumes "File_new_open ext args kw skip h s = (Inr f, s1)"
  shows "f = next_obj s \<and> next_obj s1 = Suc (next_obj s) \<and> opens s1 = Suc (opens s) \<and>
         heap s1 = (heap s)(next_obj s :=
            \<lparr>init_args = args, init_kwargs = kw, skip_cache = skip, hsh = Some h\<rparr>) \<and>
         (truthy skip \<longrightarrow> cache s1 = cache s) \<and>
         (\<not> truthy skip \<longrightarrow> map_of (lru_data (cache s1)) h = Some f) \<and>
         set (lru_data (cache s1)) \<subseteq> insert (h, f) (set (lru_data (cache s)))"
proof (cases "h5py_File_init ext (next_obj s) args kw (world s)")
  case (Pair q w)
  show ?thesis
  proof (cases q)
    case (Inl e)
    with Pair assms show ?thesis by (simp add: File_new_open_def)
  next
    case (Inr u)
    let ?s2 = "s\<lparr>next_obj := Suc (next_obj s), world := w, opens := Suc (opens s),
                 heap := (heap s)(next_obj s :=
                   \<lparr>init_args = args, init_kwargs = kw, skip_cache = skip, hsh = None\<rparr>)\<rparr>"
    show ?thesis
    proof (cases "truthy skip")
      case True
      with Pair Inr assms show ?thesis
        by (auto simp add: File_new_open_def set_hsh_def)
    next
      case False
      obtain r t where st: "LRUFileCache_setitem ext h (next_obj s) ?s2 = (r, t)"
        by (cases "LRUFileCache_setitem ext h (next_obj s) ?s2")
      note fr = LRUFileCache_setitem_frame [OF st]
      from Pair Inr False st assms have r: "r = Inr ()" and f: "f = next_obj s"
        and s1: "s1 = set_hsh (next_obj s) h t"
        by (auto simp add: File_new_open_def split: sum.splits)
      from fr r f s1 False show ?thesis
        by (auto simp add: set_hsh_def)
    qed
  qed
qed

lemma File_new_open_inv:
  assumes new: "File_new_open ext args kw skip h s = (r, s1)"
    and key: "arghash ext args kw = Inr h"
    and nokey: "map_of kw ''skip_cache'' = None"
    and inv: "cache_inv ext s"
  shows "cache_inv ext s1 \<and> next_obj s \<le> next_obj s1"
proof (cases "h5py_File_init ext (next_obj s) args kw (world s)")
  case (Pair q w)
  show ?thesis
  proof (cases q)
    case (Inl e)
    with Pair new have "s1 = s\<lparr>next_obj := Suc (next_obj s), world := w, opens := Suc (opens s)\<rparr>"
      by (simp add: File_new_open_def)
    with inv show ?thesis by (fastforce simp add: cache_inv_def)
  next
    case (Inr u)
    let ?a = "\<lparr>init_args = args, init_kwargs = kw, skip_cache = skip, hsh = None\<rparr>"
    let ?s2 = "s\<lparr>next_obj := Suc (next_obj s), world := w, opens := Suc (opens s),
                 heap := (heap s)(next_obj s := ?a)\<rparr>"
    have old: "\<And>k f. (k, f) \<in> set (lru_data (cache s)) \<Longrightarrow>
        f < next_obj s \<and> hsh (heap s f) = Some k \<and> \<not> truthy (skip_cache (heap s f)) \<and>
        map_of (init_kwargs (heap s f)) ''skip_cache'' = None \<and>
        arghash ext (init_args (heap s f)) (init_kwargs (heap s f)) = Inr k"
      using inv by (auto simp add: cache_inv_def)
    show ?thesis
    proof (cases "truthy skip")
      case True
      with Pair Inr new have "s1 = set_hsh (next_obj s) h ?s2"
        by (simp add: File_new_open_def)
      then show ?thesis using old
        by (fastforce simp add: cache_inv_def set_hsh_def)
    next
      case False
      obtain r' t where st: "LRUFileCache_setitem ext h (next_obj s) ?s2 = (r', t)"
        by (cases "LRUFileCache_setitem ext h (next_obj s) ?s2")
      note fr = LRUFileCache_setitem_frame [OF st]
      show ?thesis
      proof (cases r')
        case (Inl e)
        with Pair Inr False st new have "s1 = t" by (simp add: File_new_open_def)
        with fr Inl old show ?thesis
          by (fastforce simp add: cache_inv_def)
      next
        case (Inr u')
        with Pair \<open>q = Inr u\<close> False st new have s1: "s1 = set_hsh (next_obj s) h t"
          by (simp add: File_new_open_def)
        have "\<And>k f. (k, f) \<in> set (lru_data (cache t)) \<Longrightarrow>
                (k, f) = (h, next_obj s) \<or> (k, f) \<in> set (lru_data (cache s))"
          using fr by auto
        then show ?thesis using s1 fr old False key nokey
          by (fastforce simp add: cache_inv_def set_hsh_def)
      qed
    qed
  qed
qed

subsection \<open>\<^verbatim>\<open>File.__new__\<close>\<close>

lemma File_new_unfold:
  "File_new ext args kwargs s =
     (case File_key ext args kwargs of
        Inl e \<Rightarrow> (Inl e, s)
      | Inr h \<Rightarrow>
          if truthy (File_flag kwargs) \<or> \<not> lru_contains h (cache s) then
            File_new_open ext args (File_kwargs kwargs) (File_flag kwargs) h s
          else
            (case LRUCache_getitem h (cache s) of
               (Inl e, c) \<Rightarrow> (Inl e, s\<lparr>cache := c\<rparr>)
             | (Inr self, c) \<Rightarrow> (Inr self, set_hsh self h (s\<lparr>cache := c\<rparr>))))"
  by (cases "dict_pop ''skip_cache'' (PBool False) kwargs")
    (simp add: File_new_def File_key_def File_flag_def File_kwargs_def split: sum.splits)

lemma File_kwargs_no_flag: "map_of (File_kwargs kwargs) ''skip_cache'' = None"
  by (simp add: File_kwargs_def dict_pop_no_key)

lemma File_new_hit:
  assumes "File_key ext args kwargs = Inr h" and "\<not> truthy (File_flag kwargs)"
    and "map_of (lru_data (cache s)) h = Some f"
  shows "File_new ext args kwargs s =
           (Inr f, set_hsh f h
              (s\<lparr>cache := (cache s)\<lparr>lru_order := removeAll h (lru_order (cache s)) @ [h]\<rparr>\<rparr>))"
  using assms by (simp add: File_new_unfold lru_contains_def LRUCache_getitem_def)

lemma File_new_result:
  assumes "File_new ext args kwargs s = (Inr f, s1)"
  shows "\<exists>h. File_key ext args kwargs = Inr h \<and> hsh (heap s1 f) = Some h \<and>
           (if truthy (File_flag kwargs) \<or> \<not> lru_contains h (cache s)
            then File_new_open ext args (File_kwargs kwargs) (File_flag kwargs) h s = (Inr f, s1)
            else map_of (lru_data (cache s)) h = Some f \<and>
                 s1 = set_hsh f h
                   (s\<lparr>cache := (cache s)\<lparr>lru_order := removeAll h (lru_order (cache s)) @ [h]\<rparr>\<rparr>))"
proof (cases "File_key ext args kwargs")
  case (Inl e)
  with assms show ?thesis by (simp add: File_new_unfold)
next
  case (Inr h)
  show ?thesis
  proof (cases "truthy (File_flag kwargs) \<or> \<not> lru_contains h (cache s)")
    case True
    with Inr assms have op: "File_new_open ext args (File_kwargs kwargs) (File_flag kwargs) h s = (Inr f, s1)"
      by (simp add: File_new_unfold)
    from File_new_open_result [OF op] have "hsh (heap s1 f) = Some h" by simp
    with Inr True op show ?thesis by simp
  next
    case False
    then obtain g where g: "map_of (lru_data (cache s)) h = Some g"
      by (auto simp add: lru_contains_def)
    from False have nt: "\<not> truthy (File_flag kwargs)" by simp
    from File_new_hit [OF Inr nt g] assms have "g = f" and
      "s1 = set_hsh f h (s\<lparr>cache := (cache s)\<lparr>lru_order := removeAll h (lru_order (cache s)) @ [h]\<rparr>\<rparr>)"
      by simp_all
    with Inr False g show ?thesis by (simp add: set_hsh_def)
  qed
qed

lemma File_new_inv:
  assumes new: "File_new ext args kwargs s = (r, s1)" and inv: "cache_inv ext s"
  shows "cache_inv ext s1 \<and> next_obj s \<le> next_obj s1"
proof (cases "File_key ext args kwargs")
  case (Inl e)
  with new inv show ?thesis by (simp add: File_new_unfold)
next
  case (Inr h)
  show ?thesis
  proof (cases "truthy (File_flag kwargs) \<or> \<not> lru_contains h (cache s)")
    case True
    with Inr new have "File_new_open ext args (File_kwargs kwargs) (File_flag kwargs) h s = (r, s1)"
      by (simp add: File_new_unfold)
    from File_new_open_inv [OF this _ File_kwargs_no_flag inv] Inr show ?thesis
      by (simp add: File_key_def)
  next
    case False
    then obtain g where g: "map_of (lru_data (cache s)) h = Some g"
      by (auto simp add: lru_contains_def)
    from False have nt: "\<not> truthy (File_flag kwargs)" by simp
    from File_new_hit [OF Inr nt g] new have
      s1: "s1 = set_hsh g h (s\<lparr>cache := (cache s)\<lparr>lru_order := removeAll h (lru_order (cache s)) @ [h]\<rparr>\<rparr>)"
      by simp
    have "(h, g) \<in> set (lru_data (cache s))" using g by (rule map_of_SomeD)
    with inv have "hsh (heap s g) = Some h" by (auto simp add: cache_inv_def)
    then have "(heap s)(g := (heap s g)\<lparr>hsh := Some h\<rparr>) = heap s" by (auto simp add: fun_eq_iff)
    with s1 inv show ?thesis by (simp add: cache_inv_def set_hsh_def)
  qed
qed

lemma File_kwargs_delete: "File_kwargs kwargs = AList.delete ''skip_cache'' kwargs"
  by (simp add: File_kwargs_def dict_pop_snd_delete)

lemma File_flag_update: "File_flag (AList.update ''skip_cache'' v kwargs) = v"
  by (simp add: File_flag_def dict_pop_update)

lemma File_flag_absent: "map_of kwargs ''skip_cache'' = None \<Longrightarrow> File_flag kwargs = PBool False"
  by (simp add: File_flag_def dict_pop_def)

lemma File_key_update:
  "File_key ext args (AList.update ''skip_cache'' v kwargs) = File_key ext args kwargs"
  by (simp add: File_key_def File_kwargs_delete delete_update_same)

lemma File_new_cached:
  assumes "\<not> truthy (File_flag kwargs)" and "File_new ext args kwargs s = (Inr f, s1)"
  shows "\<exists>h. File_key ext args kwargs = Inr h \<and> map_of (lru_data (cache s1)) h = Some f"
proof -
  from File_new_result [OF assms(2)] obtain h where
    key: "File_key ext args kwargs = Inr h" and
    br: "if truthy (File_flag kwargs) \<or> \<not> lru_contains h (cache s)
         then File_new_open ext args (File_kwargs kwargs) (File_flag kwargs) h s = (Inr f, s1)
         else map_of (lru_data (cache s)) h = Some f \<and>
              s1 = set_hsh f h
                (s\<lparr>cache := (cache s)\<lparr>lru_order := removeAll h (lru_order (cache s)) @ [h]\<rparr>\<rparr>)"
    by blast
  have "map_of (lru_data (cache s1)) h = Some f"
  proof (cases "truthy (File_flag kwargs) \<or> \<not> lru_contains h (cache s)")
    case True
    with br have "File_new_open ext args (File_kwargs kwargs) (File_flag kwargs) h s = (Inr f, s1)"
      by simp
    from File_new_open_result [OF this] assms(1) show ?thesis by simp
  next
    case False
    with br show ?thesis by (simp add: set_hsh_def)
  qed
  with key show ?thesis by blast
qed

lemma cache_invD:
  assumes "cache_inv ext s" and "map_of (lru_data (cache s)) h = Some f"
  shows "f < next_obj s" and "hsh (heap s f) = Some h" and "\<not> truthy (skip_cache (heap s f))"
    and "map_of (init_kwargs (heap s f)) ''skip_cache'' = None"
    and "arghash ext (init_args (heap s f)) (init_kwargs (heap s f)) = Inr h"
proof -
  have "(h, f) \<in> set (lru_data (cache s))" using assms(2) by (rule map_of_SomeD)
  with assms(1) show "f < next_obj s" and "hsh (heap s f) = Some h"
    and "\<not> truthy (skip_cache (heap s f))"
    and "map_of (init_kwargs (heap s f)) ''skip_cache'' = None"
    and "arghash ext (init_args (heap s f)) (init_kwargs (heap s f)) = Inr h"
    by (auto simp add: cache_inv_def)
qed


lemma File_new_branches:
  assumes inv: "cache_inv ext s" and new: "File_new ext args kwargs s = (Inr f, s1)"
  obtains (hit) h where "File_key ext args kwargs = Inr h" "\<not> truthy (File_flag kwargs)"
      "map_of (lru_data (cache s)) h = Some f" "f < next_obj s" "heap s1 = heap s"
      "next_obj s1 = next_obj s" "lru_data (cache s1) = lru_data (cache s)"
    | (opened) h where "File_key ext args kwargs = Inr h"
      "truthy (File_flag kwargs) \<or> \<not> lru_contains h (cache s)"
      "File_new_open ext args (File_kwargs kwargs) (File_flag kwargs) h s = (Inr f, s1)"
      "f = next_obj s"
proof -
  from File_new_result [OF new] obtain h where
    key: "File_key ext args kwargs = Inr h" and
    br: "if truthy (File_flag kwargs) \<or> \<not> lru_contains h (cache s)
         then File_new_open ext args (File_kwargs kwargs) (File_flag kwargs) h s = (Inr f, s1)
         else map_of (lru_data (cache s)) h = Some f \<and>
              s1 = set_hsh f h
                (s\<lparr>cache := (cache s)\<lparr>lru_order := removeAll h (lru_order (cache s)) @ [h]\<rparr>\<rparr>)"
    by blast
  show thesis
  proof (cases "truthy (File_flag kwargs) \<or> \<not> lru_contains h (cache s)")
    case True
    with br have op: "File_new_open ext args (File_kwargs kwargs) (File_flag kwargs) h s = (Inr f, s1)"
      by simp
    from File_new_open_result [OF op] have "f = next_obj s" by simp
    with key True op show thesis by (rule opened)
  next
    case False
    with br have m: "map_of (lru_data (cache s)) h = Some f" and
      s1: "s1 = set_hsh f h
                (s\<lparr>cache := (cache s)\<lparr>lru_order := removeAll h (lru_order (cache s)) @ [h]\<rparr>\<rparr>)"
      by simp_all
    from cache_invD [OF inv m] have lt: "f < next_obj s" and hs: "hsh (heap s f) = Some h"
      by simp_all
    from hs have "(heap s)(f := (heap s f)\<lparr>hsh := Some h\<rparr>) = heap s" by (auto simp add: fun_eq_iff)
    with s1 have "heap s1 = heap s" "next_obj s1 = next_obj s" "lru_data (cache s1) = lru_data (cache s)"
      by (simp_all add: set_hsh_def)
    with key False m lt show thesis by (auto intro: hit)
  qed
qed

lemma File_new_lt:
  assumes inv: "cache_inv ext s" and new: "File_new ext args kwargs s = (Inr f, s1)"
  shows "f < next_obj s1"
  using inv new
proof (cases rule: File_new_branches)
  case (hit h)
  then show ?thesis by simp
next
  case (opened h)
  from File_new_open_result [OF opened(3)] show ?thesis by simp
qed

lemma arghash_serializable:
  assumes "arghash ext args kw = Inr h"
  shows "(\<forall>a \<in> set args. json_serializable a) \<and> (\<forall>kv \<in> set kw. json_serializable (snd kv))"
  using assms arghash_bad_arg [of _ args ext kw] arghash_bad_kwarg [of _ kw ext args]
  by fastforce

subsection \<open>Eviction when closing cannot fail\<close>

lemma fst_set_delete: "fst ` set (AList.delete k xs) = fst ` set xs - {k}"
  by (induction xs) auto

lemma LRUCache_popitem_wf:
  assumes "lru_wf c" and "lru_data c \<noteq> []"
  shows "\<exists>kv c'. LRUCache_popitem c = (Inr kv, c') \<and> lru_wf c'"
proof -
  from assms have "lru_order c \<noteq> []" by (cases "lru_data c") (auto simp add: lru_wf_def)
  then obtain k ks where o: "lru_order c = k # ks" by (cases "lru_order c") auto
  with assms(1) have "k \<in> fst ` set (lru_data c)" by (auto simp add: lru_wf_def)
  then obtain v where v: "map_of (lru_data c) k = Some v"
    by (cases "map_of (lru_data c) k") (auto simp add: map_of_eq_None_iff)
  have "set (lru_order c) - {k} = fst ` set (lru_data c) - {k}"
    using assms(1) by (simp add: lru_wf_def)
  with o v show ?thesis
    by (auto simp add: LRUCache_popitem_def LRUCache_getitem_def LRUCache_delitem_def lru_wf_def
        fst_set_delete)
qed

lemma close_scan_wf:
  assumes "lru_wf c" and "set ks \<subseteq> fst ` set (lru_data c)"
  shows "(fst (close_scan ks h c) = Inr () \<or> fst (close_scan ks h c) = Inl AttributeError) \<and>
         lru_wf (snd (close_scan ks h c))"
  using assms
proof (induction ks arbitrary: c)
  case Nil
  then show ?case by simp
next
  case (Cons k ks)
  from Cons.prems obtain v where v: "map_of (lru_data c) k = Some v"
    by (cases "map_of (lru_data c) k") (auto simp add: map_of_eq_None_iff)
  let ?c = "c\<lparr>lru_order := removeAll k (lru_order c) @ [k]\<rparr>"
  have wf: "lru_wf ?c" using Cons.prems by (auto simp add: lru_wf_def)
  have sub: "set ks \<subseteq> fst ` set (lru_data ?c)" using Cons.prems by simp
  show ?case
  proof (cases h)
    case None
    with v wf show ?thesis by (simp add: LRUCache_getitem_def)
  next
    case (Some hv)
    with v Cons.IH [OF wf sub] show ?thesis by (simp add: LRUCache_getitem_def py_eq_def)
  qed
qed

lemma File_close_wf:
  assumes "close_ok ext" and "lru_wf (cache s)"
  shows "(fst (File_close ext f s) = Inr () \<or> fst (File_close ext f s) = Inl AttributeError) \<and>
         lru_wf (cache (snd (File_close ext f s)))"
proof (cases "h5py_File_close ext f (world s)")
  case (Pair r w)
  from assms(1) have "fst (h5py_File_close ext f (world s)) = Inr () \<or>
      fst (h5py_File_close ext f (world s)) = Inl AttributeError"
    by (simp add: close_ok_def)
  with Pair have r: "r = Inr () \<or> r = Inl AttributeError" by simp
  from close_scan_wf [OF assms(2), of "map fst (lru_data (cache s))" "hsh (heap s f)"]
  have cs: "(fst (close_scan (map fst (lru_data (cache s))) (hsh (heap s f)) (cache s)) = Inr () \<or>
         fst (close_scan (map fst (lru_data (cache s))) (hsh (heap s f)) (cache s)) = Inl AttributeError) \<and>
        lru_wf (snd (close_scan (map fst (lru_data (cache s))) (hsh (heap s f)) (cache s)))"
    by simp
  from r show ?thesis
  proof
    assume "r = Inr ()"
    with Pair cs show ?thesis by (auto simp add: File_close_def split: prod.splits)
  next
    assume "r = Inl AttributeError"
    with Pair assms(2) show ?thesis by (simp add: File_close_def)
  qed
qed

lemma LRUFileCache_popitem_wf:
  assumes ok: "close_ok ext" and wf: "lru_wf (cache s)" and ne: "lru_data (cache s) \<noteq> []"
  shows "\<exists>kv s'. LRUFileCache_popitem (File_close ext) s = (Inr kv, s') \<and> lru_wf (cache s')"
proof -
  from LRUCache_popitem_wf [OF wf ne] obtain kv c where
    p: "LRUCache_popitem (cache s) = (Inr kv, c)" and wfc: "lru_wf c" by blast
  obtain r s' where cl: "File_close ext (snd kv) (s\<lparr>cache := c\<rparr>) = (r, s')"
    by (cases "File_close ext (snd kv) (s\<lparr>cache := c\<rparr>)")
  from File_close_wf [OF ok, of "s\<lparr>cache := c\<rparr>" "snd kv"] wfc cl
  have "(r = Inr () \<or> r = Inl AttributeError) \<and> lru_wf (cache s')" by simp
  with p cl show ?thesis by (auto simp add: LRUFileCache_popitem_def)
qed

lemma evict_while_wf:
  assumes "close_ok ext" and "lru_wf (cache s)" and "1 \<le> lru_maxsize (cache s)"
  shows "fst (evict_while ext s) = Inr () \<and> lru_wf (cache (snd (evict_while ext s)))"
  using assms
proof (induction ext s rule: evict_while.induct)
  case (1 ext s)
  show ?case
  proof (cases "lru_maxsize (cache s) < length (lru_data (cache s)) + 1")
    case False
    with "1.prems" show ?thesis by (simp add: evict_while.simps [of ext s])
  next
    case True
    with "1.prems"(3) have ne: "lru_data (cache s) \<noteq> []" by auto
    from LRUFileCache_popitem_wf [OF "1.prems"(1) "1.prems"(2) ne] obtain kv t where
      p: "LRUFileCache_popitem (File_close ext) s = (Inr kv, t)" and wft: "lru_wf (cache t)"
      by blast
    from LRUFileCache_popitem_frame [OF p] "1.prems"(3) have m: "1 \<le> lru_maxsize (cache t)"
      by simp
    from "1.IH" [OF True p [symmetric] refl "1.prems"(1) wft m] True p
    show ?thesis by (simp add: evict_while.simps [of ext s])
  qed
qed

lemma LRUFileCache_setitem_wf:
  assumes "close_ok ext" and "lru_wf (cache s)" and "1 \<le> lru_maxsize (cache s)"
  shows "fst (LRUFileCache_setitem ext k v s) = Inr () \<and>
         lru_wf (cache (snd (LRUFileCache_setitem ext k v s)))"
proof -
  have upd: "lru_wf (c\<lparr>lru_data := AList.update k v (lru_data c),
                       lru_order := removeAll k (lru_order c) @ [k]\<rparr>)" if "lru_wf c" for c
    using that by (auto simp add: lru_wf_def dom_update image_iff)
  show ?thesis
  proof (cases "lru_contains k (cache s)")
    case True
    with assms upd [of "cache s"] show ?thesis by (simp add: LRUFileCache_setitem_def)
  next
    case False
    obtain r t where e: "evict_while ext s = (r, t)" by (cases "evict_while ext s")
    with evict_while_wf [OF assms] have "r = Inr ()" "lru_wf (cache t)" by simp_all
    with False e assms(3) upd [of "cache t"] show ?thesis
      by (simp add: LRUFileCache_setitem_def)
  qed
qed

subsection \<open>The invariants hold initially and are kept\<close>

lemma cache_inv_init_state: "cache_inv ext (init_state w)"
  by (simp add: cache_inv_def init_state_def)

lemma lru_wf_init_state: "lru_wf (cache (init_state w))"
  by (simp add: lru_wf_def init_state_def)

lemma File_close_inv:
  assumes "cache_inv ext s"
  shows "cache_inv ext (snd (File_close ext' f s))"
  using assms File_close_frame [of ext' f s] by (simp add: cache_inv_def)

lemma lru_wf_touch:
  "lru_wf c \<Longrightarrow> map_of (lru_data c) k = Some v \<Longrightarrow>
     lru_wf (c\<lparr>lru_order := removeAll k (lru_order c) @ [k]\<rparr>)"
  by (auto simp add: lru_wf_def dest: map_of_SomeD intro: rev_image_eqI)

lemma LRUCache_popitem_keeps_wf:
  assumes "lru_wf c"
  shows "lru_wf (snd (LRUCache_popitem c))"
proof (cases "lru_order c")
  case Nil
  with assms show ?thesis by (simp add: LRUCache_popitem_def)
next
  case (Cons k ks)
  show ?thesis
  proof (cases "map_of (lru_data c) k")
    case None
    with Cons assms show ?thesis by (simp add: LRUCache_popitem_def LRUCache_getitem_def)
  next
    case (Some v)
    have "set (lru_order c) - {k} = fst ` set (lru_data c) - {k}"
      using assms by (simp add: lru_wf_def)
    with Cons Some show ?thesis
      by (auto simp add: LRUCache_popitem_def LRUCache_getitem_def LRUCache_delitem_def lru_wf_def
          fst_set_delete)
  qed
qed

lemma close_scan_keeps_wf:
  "lru_wf c \<Longrightarrow> lru_wf (snd (close_scan ks h c))"
proof (induction ks arbitrary: c)
  case Nil
  then show ?case by simp
next
  case (Cons k ks)
  show ?case
  proof (cases "map_of (lru_data c) k")
    case None
    with Cons.prems show ?thesis by (simp add: LRUCache_getitem_def)
  next
    case (Some v)
    from lru_wf_touch [OF Cons.prems Some]
    have wf: "lru_wf (c\<lparr>lru_order := removeAll k (lru_order c) @ [k]\<rparr>)" .
    show ?thesis
    proof (cases h)
      case None
      with Some wf show ?thesis by (simp add: LRUCache_getitem_def)
    next
      case (Some hv)
      with \<open>map_of (lru_data c) k = Some v\<close> Cons.IH [OF wf] show ?thesis
        by (simp add: LRUCache_getitem_def py_eq_def)
    qed
  qed
qed

lemma File_close_keeps_wf:
  assumes "lru_wf (cache s)"
  shows "lru_wf (cache (snd (File_close ext f s)))"
proof (cases "h5py_File_close ext f (world s)")
  case (Pair r w)
  show ?thesis
  proof (cases r)
    case (Inl e)
    with Pair assms show ?thesis by (simp add: File_close_def)
  next
    case (Inr u)
    with Pair close_scan_keeps_wf [OF assms, of "map fst (lru_data (cache s))" "hsh (heap s f)"]
    show ?thesis by (auto simp add: File_close_def split: prod.splits)
  qed
qed

lemma LRUFileCache_popitem_keeps_wf:
  assumes "lru_wf (cache s)"
  shows "lru_wf (cache (snd (LRUFileCache_popitem (File_close ext) s)))"
proof (cases "LRUCache_popitem (cache s)")
  case (Pair r c)
  from LRUCache_popitem_keeps_wf [OF assms] Pair have wfc: "lru_wf c" by simp
  show ?thesis
  proof (cases r)
    case (Inl e)
    with Pair wfc show ?thesis by (simp add: LRUFileCache_popitem_def)
  next
    case (Inr kv)
    from File_close_keeps_wf [of "s\<lparr>cache := c\<rparr>" ext "snd kv"] wfc
    have "lru_wf (cache (snd (File_close ext (snd kv) (s\<lparr>cache := c\<rparr>))))" by simp
    with Pair Inr show ?thesis
      by (auto simp add: LRUFileCache_popitem_def split: prod.splits sum.splits)
  qed
qed

lemma evict_while_keeps_wf:
  "lru_wf (cache s) \<Longrightarrow> lru_wf (cache (snd (evict_while ext s)))"
proof (induction ext s rule: evict_while.induct)
  case (1 ext s)
  show ?case
  proof (cases "lru_maxsize (cache s) < length (lru_data (cache s)) + 1")
    case False
    with "1.prems" show ?thesis by (simp add: evict_while.simps [of ext s])
  next
    case True
    obtain q t where p: "LRUFileCache_popitem (File_close ext) s = (q, t)"
      by (cases "LRUFileCache_popitem (File_close ext) s")
    from LRUFileCache_popitem_keeps_wf [OF "1.prems", of ext] p have wft: "lru_wf (cache t)"
      by simp
    show ?thesis
    proof (cases q)
      case (Inl e)
      with True p wft show ?thesis by (simp add: evict_while.simps [of ext s])
    next
      case (Inr kv)
      from "1.IH" [OF True p [symmetric] Inr wft] True p Inr
      show ?thesis by (simp add: evict_while.simps [of ext s])
    qed
  qed
qed

lemma lru_wf_update:
  "lru_wf c \<Longrightarrow> lru_wf (c\<lparr>lru_data := AList.update k v (lru_data c),
                             lru_order := removeAll k (lru_order c) @ [k]\<rparr>)"
  by (auto simp add: lru_wf_def dom_update image_iff)

lemma LRUFileCache_setitem_keeps_wf:
  assumes "lru_wf (cache s)"
  shows "lru_wf (cache (snd (LRUFileCache_setitem ext k v s)))"
proof (cases "lru_maxsize (cache s) < 1")
  case True
  with assms show ?thesis by (simp add: LRUFileCache_setitem_def)
next
  case False
  show ?thesis
  proof (cases "lru_contains k (cache s)")
    case True
    with False assms lru_wf_update [of "cache s" k v] show ?thesis
      by (simp add: LRUFileCache_setitem_def)
  next
    case c: False
    obtain r t where e: "evict_while ext s = (r, t)" by (cases "evict_while ext s")
    with evict_while_keeps_wf [OF assms, of ext] have wft: "lru_wf (cache t)" by simp
    with False c e lru_wf_update [of "cache t" k v] show ?thesis
      by (cases r) (simp_all add: LRUFileCache_setitem_def)
  qed
qed

lemma File_new_keeps_wf:
  assumes "lru_wf (cache s)"
  shows "lru_wf (cache (snd (File_new ext args kwargs s)))"
proof (cases "File_key ext args kwargs")
  case (Inl e)
  with assms show ?thesis by (simp add: File_new_unfold)
next
  case (Inr h)
  show ?thesis
  proof (cases "truthy (File_flag kwargs) \<or> \<not> lru_contains h (cache s)")
    case False
    then obtain g where g: "map_of (lru_data (cache s)) h = Some g"
      by (auto simp add: lru_contains_def)
    from False have nt: "\<not> truthy (File_flag kwargs)" by simp
    from File_new_hit [OF Inr nt g] lru_wf_touch [OF assms g] show ?thesis
      by (simp add: set_hsh_def)
  next
    case True
    let ?kw = "File_kwargs kwargs" and ?sk = "File_flag kwargs"
    have "lru_wf (cache (snd (File_new_open ext args ?kw ?sk h s)))"
    proof (cases "h5py_File_init ext (next_obj s) args ?kw (world s)")
      case (Pair q w)
      show ?thesis
      proof (cases q)
        case (Inl e)
        with Pair assms show ?thesis by (simp add: File_new_open_def)
      next
        case (Inr u)
        let ?s2 = "s\<lparr>next_obj := Suc (next_obj s), world := w, opens := Suc (opens s),
                 heap := (heap s)(next_obj s :=
                   \<lparr>init_args = args, init_kwargs = ?kw, skip_cache = ?sk, hsh = None\<rparr>)\<rparr>"
        have "lru_wf (cache ?s2)" using assms by simp
        from LRUFileCache_setitem_keeps_wf [OF this, of ext h "next_obj s"] Pair Inr assms
        show ?thesis
          by (auto simp add: File_new_open_def set_hsh_def split: prod.splits sum.splits)
      qed
    qed
    with Inr True show ?thesis by (simp add: File_new_unfold)
  qed
qed

subsection \<open>Proxies and pickling\<close>

lemma Dataset_reopen_names:
  assumes fn: "map_of self ''file_name'' = Some (AStr fn)"
    and fm: "map_of self ''file_mode'' = Some (AStr fm)"
    and dn: "map_of self ''dataset_name'' = Some (AStr dn)"
  shows "Dataset_reopen ext self s =
           (case File_new ext [PStr fn] [(''mode'', PStr fm)] s of
              (Inl e, s1) \<Rightarrow> (Inl e, s1)
            | (Inr f, s1) \<Rightarrow> File_getitem ext f dn s1)"
  using assms by (simp add: Dataset_reopen_def self_attr_def split: prod.splits sum.splits)

lemma pickle_state_keys: "pickle_state hp st = Inr ps \<Longrightarrow> map fst ps = map fst st"
  by (induction st arbitrary: ps) (auto split: sum.splits)

lemma dict_update_absent:
  "map_of d k = None \<Longrightarrow> k \<notin> fst ` set st \<Longrightarrow> map_of (dict_update d st) k = None"
  by (induction st arbitrary: d) (auto simp add: update_conv')

lemma Dataset_setstate_dict:
  "Dataset_setstate ext self st s = (Inr self', s1) \<Longrightarrow> self' = dict_update self st"
  by (auto simp add: Dataset_setstate_def split: prod.splits sum.splits)

text \<open>The definitions unfolded to run the model on a concrete input.\<close>

lemmas run =
  File_new_def File_new_open_def LRUFileCache_setitem_def LRUFileCache_popitem_def
  LRUCache_popitem_def LRUCache_getitem_def LRUCache_delitem_def File_close_def
  lru_contains_def set_hsh_def dict_pop_def arghash_def json_string_def escape_char_def
  File_flag_def File_kwargs_def File_key_def
  test_ext_def failing_ext_def small_state_def init_state_def blank_attrs_def py_eq_def

lemma evicted_state_eq:
  "evicted_state =
     \<lparr>cache = \<lparr>lru_data = [(11, 1)], lru_order = [11], lru_maxsize = 1\<rparr>,
      heap = (\<lambda>x. blank_attrs)
        (0 := \<lparr>init_args = [PStr ''a.h5''], init_kwargs = [(''mode'', PStr ''r'')],
               skip_cache = PBool False, hsh = Some 21\<rparr>,
         1 := \<lparr>init_args = [PStr ''bb.h5''], init_kwargs = [],
               skip_cache = PBool False, hsh = Some 11\<rparr>),
      next_obj = 2, world = [1], opens = 2\<rparr>"
  by (simp add: evicted_state_def run evict_while.simps)

section \<open>Properties\<close>

text \<open>
  C1. Constructing File twice with the same arguments, the bypass flag not set, with no
  eviction or close in between, returns the same object both times, and the second
  construction performs no native open: the count of native opens and the native state
  are those the first construction left.
\<close>

theorem File_new_twice_same_handle:
  assumes "\<not> truthy (File_flag kwargs)" and "File_new ext args kwargs s = (Inr f, s1)"
  shows "\<exists>s2. File_new ext args kwargs s1 = (Inr f, s2) \<and> opens s2 = opens s1 \<and> world s2 = world s1"
proof -
  from File_new_cached [OF assms] obtain h where
    key: "File_key ext args kwargs = Inr h" and c: "map_of (lru_data (cache s1)) h = Some f"
    by blast
  from File_new_hit [OF key assms(1) c] show ?thesis by (simp add: set_hsh_def)
qed

theorem File_new_twice_same_handle_witness:
  "fst (File_new test_ext [PStr ''a.h5''] [(''mode'', PStr ''r'')]
         (snd (File_new test_ext [PStr ''a.h5''] [(''mode'', PStr ''r'')] (init_state [])))) = Inr 0
   \<and> opens (snd (File_new test_ext [PStr ''a.h5''] [(''mode'', PStr ''r'')]
         (snd (File_new test_ext [PStr ''a.h5''] [(''mode'', PStr ''r'')] (init_state []))))) = 1"
proof -
  let ?s1 = "snd (File_new test_ext [PStr ''a.h5''] [(''mode'', PStr ''r'')] (init_state []))"
  have flag: "\<not> truthy (File_flag [(''mode'', PStr ''r'')])"
    by (simp add: File_flag_def dict_pop_def)
  have first: "File_new test_ext [PStr ''a.h5''] [(''mode'', PStr ''r'')] (init_state []) = (Inr 0, ?s1)"
    by (simp add: run)
  have "opens ?s1 = 1" by (simp add: run)
  with File_new_twice_same_handle [OF flag first] show ?thesis by auto
qed

text \<open>
  C2, as the code has it. For a proxy that holds its three names, the element access, and
  the access to an attribute that Python finds neither in the instance dictionary nor on
  the class, first call \<^verbatim>\<open>File(file_name, mode=file_mode)\<close> and look the dataset name up
  in the result, then delegate: when the root can be acquired and the lookup through it
  yields a dataset, the access returns what the native dataset returns. When the root's
  key is not in the cache (the handle was evicted), the root is a newly opened object, so
  the handle the proxy came from plays no part. An attribute the instance holds
  (\<^verbatim>\<open>file_name\<close>, \<^verbatim>\<open>file_mode\<close>, \<^verbatim>\<open>dataset_name\<close>, \<^verbatim>\<open>dataset\<close>) or the class
  provides is returned as it is, and the state is left untouched.
\<close>

theorem Dataset_fallback_access_reopens:
  assumes fn: "map_of self ''file_name'' = Some (AStr fn)"
    and fm: "map_of self ''file_mode'' = Some (AStr fm)"
    and dn: "map_of self ''dataset_name'' = Some (AStr dn)"
    and key: "File_key ext [PStr fn] [(''mode'', PStr fm)] = Inr h"
    and root: "File_new ext [PStr fn] [(''mode'', PStr fm)] s = (Inr f, s1)"
    and path: "h5py_Group_getitem ext (OfFile f) dn (world s1) = (Inr (H5Dataset nd), w2)"
    and attr: "h5py_Dataset_getattr ext nd name w2 = (r, w3)"
    and item: "h5py_Dataset_getitem ext nd i w2 = (r', w3')"
  shows "(map_of self name = None \<longrightarrow> \<not> on_class name \<longrightarrow>
            Dataset_attribute on_class ext self name s = (map_sum id Delegated r, s1\<lparr>world := w3\<rparr>)) \<and>
         Dataset_getitem ext self i s = (r', s1\<lparr>world := w3'\<rparr>) \<and>
         (\<not> lru_contains h (cache s) \<longrightarrow> f = next_obj s \<and> opens s1 = Suc (opens s)) \<and>
         (\<forall>v. map_of self name = Some v \<longrightarrow>
            Dataset_attribute on_class ext self name s = (Inr (Stored v), s)) \<and>
         (map_of self name = None \<longrightarrow> on_class name \<longrightarrow>
            Dataset_attribute on_class ext self name s = (Inr (ClassAttr name), s))"
proof -
  have g: "File_getitem ext f dn s1 = (Inr (WDataset (Dataset_init nd)), s1\<lparr>world := w2\<rparr>)"
    using path by (simp add: File_getitem_def)
  have re: "Dataset_reopen ext self s = (Inr (WDataset (Dataset_init nd)), s1\<lparr>world := w2\<rparr>)"
    using root g by (simp add: Dataset_reopen_names [OF fn fm dn])
  have wd: "wrapped_dataset (WDataset (Dataset_init nd)) = Inr nd"
    by (simp add: wrapped_dataset_def Dataset_init_def)
  have ga: "Dataset_getattr ext self name s = (r, s1\<lparr>world := w3\<rparr>)"
    using re wd attr by (simp add: Dataset_getattr_def)
  have a: "Dataset_attribute on_class ext self name s = (map_sum id Delegated r, s1\<lparr>world := w3\<rparr>)"
    if "map_of self name = None" and "\<not> on_class name"
    using that ga by (cases r) (simp_all add: Dataset_attribute_def)
  have b: "Dataset_getitem ext self i s = (r', s1\<lparr>world := w3'\<rparr>)"
    using re wd item by (simp add: Dataset_getitem_def)
  have c: "f = next_obj s \<and> opens s1 = Suc (opens s)" if "\<not> lru_contains h (cache s)"
  proof -
    from File_new_result [OF root] key that
    have "File_new_open ext [PStr fn] (File_kwargs [(''mode'', PStr fm)])
            (File_flag [(''mode'', PStr fm)]) h s = (Inr f, s1)"
      by auto
    from File_new_open_result [OF this] show ?thesis by simp
  qed
  have d: "Dataset_attribute on_class ext self name s = (Inr (Stored v), s)"
    if "map_of self name = Some v" for v
    using that by (simp add: Dataset_attribute_def)
  have e: "Dataset_attribute on_class ext self name s = (Inr (ClassAttr name), s)"
    if "map_of self name = None" and "on_class name"
    using that by (simp add: Dataset_attribute_def)
  from a b c d e show ?thesis by blast
qed

theorem Dataset_fallback_access_reopens_witness:
  "fst (File_getitem test_ext 0 ''x'' evicted_state) = Inl ValueError \<and>
   fst (Dataset_attribute on_Dataset_class test_ext (Dataset_init test_dataset) ''shape'' evicted_state)
     = Inr (Delegated (PStr ''x.shape'')) \<and>
   fst (Dataset_getitem test_ext (Dataset_init test_dataset) (PInt 3) evicted_state)
     = Inr (PInt 3) \<and>
   \<not> lru_contains 21 (cache evicted_state) \<and>
   opens (snd (Dataset_attribute on_Dataset_class test_ext (Dataset_init test_dataset) ''shape''
      evicted_state)) = 3 \<and>
   Dataset_attribute on_Dataset_class test_ext (Dataset_init test_dataset) ''file_name'' evicted_state
     = (Inr (Stored (AStr ''a.h5'')), evicted_state) \<and>
   Dataset_attribute on_Dataset_class test_ext (Dataset_init test_dataset) ''__class__'' evicted_state
     = (Inr (ClassAttr ''__class__''), evicted_state)"
proof -
  let ?d = "Dataset_init test_dataset"
  let ?s1 = "snd (File_new test_ext [PStr ''a.h5''] [(''mode'', PStr ''r'')] evicted_state)"
  have fn: "map_of ?d ''file_name'' = Some (AStr ''a.h5'')"
    and fm: "map_of ?d ''file_mode'' = Some (AStr ''r'')"
    and dn: "map_of ?d ''dataset_name'' = Some (AStr ''x'')"
    by (simp_all add: Dataset_init_def test_dataset_def)
  have stale: "fst (File_getitem test_ext 0 ''x'' evicted_state) = Inl ValueError"
    by (simp add: evicted_state_eq File_getitem_def test_ext_def)
  have key: "File_key test_ext [PStr ''a.h5''] [(''mode'', PStr ''r'')] = Inr 21"
    by (simp add: run)
  have root: "File_new test_ext [PStr ''a.h5''] [(''mode'', PStr ''r'')] evicted_state = (Inr 2, ?s1)"
    by (simp add: evicted_state_eq run evict_while.simps)
  have w: "world ?s1 = [2]"
    by (simp add: evicted_state_eq run evict_while.simps)
  have path: "h5py_Group_getitem test_ext (OfFile 2) ''x'' (world ?s1)
      = (Inr (H5Dataset test_dataset), [2])"
    by (simp add: w) (simp add: test_ext_def)
  have attr: "h5py_Dataset_getattr test_ext test_dataset ''shape'' [2] = (Inr (PStr ''x.shape''), [2])"
    by (simp add: test_ext_def test_dataset_def)
  have item: "h5py_Dataset_getitem test_ext test_dataset (PInt 3) [2] = (Inr (PInt 3), [2])"
    by (simp add: test_ext_def)
  have absent: "\<not> lru_contains 21 (cache evicted_state)"
    by (simp add: evicted_state_eq lru_contains_def)
  have o: "opens evicted_state = 2" by (simp add: evicted_state_eq)
  have none: "map_of ?d ''shape'' = None" and nc: "\<not> on_Dataset_class ''shape''"
    by (simp_all add: Dataset_init_def on_Dataset_class_def Dataset_class_names_def)
  note th = Dataset_fallback_access_reopens [OF fn fm dn key root path attr item,
      where on_class = on_Dataset_class]
  from th none nc have a: "Dataset_attribute on_Dataset_class test_ext ?d ''shape'' evicted_state
      = (map_sum id Delegated (Inr (PStr ''x.shape'')), ?s1\<lparr>world := [2]\<rparr>)"
    by blast
  from th have b: "Dataset_getitem test_ext ?d (PInt 3) evicted_state = (Inr (PInt 3), ?s1\<lparr>world := [2]\<rparr>)"
    by blast
  from th absent have c: "opens ?s1 = Suc (opens evicted_state)" by blast
  note th2 = Dataset_fallback_access_reopens [OF fn fm dn key root path _ item,
      where on_class = on_Dataset_class and name = "''file_name''"]
  have attr2: "h5py_Dataset_getattr test_ext test_dataset ''file_name'' [2] = (Inr (PStr ''x.file_name''), [2])"
    by (simp add: test_ext_def test_dataset_def)
  from th2 [OF attr2] fn have d: "Dataset_attribute on_Dataset_class test_ext ?d ''file_name'' evicted_state
     = (Inr (Stored (AStr ''a.h5'')), evicted_state)"
    by blast
  have attr3: "h5py_Dataset_getattr test_ext test_dataset ''__class__'' [2] = (Inr (PStr ''x.__class__''), [2])"
    by (simp add: test_ext_def test_dataset_def)
  have none3: "map_of ?d ''__class__'' = None" and oc: "on_Dataset_class ''__class__''"
    by (simp_all add: Dataset_init_def on_Dataset_class_def Dataset_class_names_def)
  from Dataset_fallback_access_reopens [OF fn fm dn key root path attr3 item,
      where on_class = on_Dataset_class] none3 oc
  have e: "Dataset_attribute on_Dataset_class test_ext ?d ''__class__'' evicted_state
     = (Inr (ClassAttr ''__class__''), evicted_state)"
    by blast
  from stale a b c o absent d e show ?thesis by simp
qed

text \<open>
  C2 as stated fails: \<^verbatim>\<open>__getattr__\<close> is only the fallback of the attribute lookup.
  After the file of the proxy was evicted and closed, \<^verbatim>\<open>d.dataset\<close> returns the stored
  native dataset of the closed file; nothing is re-acquired and the state is unchanged.
\<close>

theorem Dataset_stored_attribute_counterexample:
  "Dataset_attribute on_Dataset_class test_ext (Dataset_init test_dataset) ''dataset'' evicted_state
     = (Inr (Stored (ANative test_dataset)), evicted_state) \<and>
   (0 :: obj) \<notin> set (world evicted_state) \<and>
   fst (File_getitem test_ext 0 ''x'' evicted_state) = Inl ValueError"
  by (simp add: Dataset_attribute_def Dataset_init_def evicted_state_eq File_getitem_def test_ext_def)

text \<open>
  C3. What pickling writes holds descriptor data only. A File is written as its
  constructor arguments with the flag \<^verbatim>\<open>skip_cache\<close>; a Dataset made from a native
  dataset as its file name, file mode and dataset name; whatever is written for a Dataset
  is a state without the entry \<^verbatim>\<open>dataset\<close>; a Group, when h5py lets it be pickled, as
  its name and the pickled form of its File. Where nothing is written, pickling raises: a
  Dataset without the attribute \<^verbatim>\<open>dataset\<close>, as \<^verbatim>\<open>__setstate__\<close> leaves it on a new
  instance, raises \<^verbatim>\<open>KeyError\<close>, and a Group raises what h5py's \<^verbatim>\<open>__getnewargs__\<close>
  raises. The forms do not change with the key stored on the File, and the stored
  arguments of a File that \<^verbatim>\<open>File.__new__\<close> returned are JSON-serializable, so they hold
  no h5py object.
\<close>

theorem pickled_forms_descriptor_only:
  "pickle_File hp f =
     Inr (PkFile (init_args (hp f))
            (AList.update ''skip_cache'' (skip_cache (hp f)) (init_kwargs (hp f)))) \<and>
   pickle_Dataset hp (Dataset_init nd) =
     Inr (PkState [(''file_name'', PkStr (ds_file_name nd)), (''file_mode'', PkStr (ds_file_mode nd)),
                   (''dataset_name'', PkStr (ds_name nd))]) \<and>
   (\<forall>p. pickle_Dataset hp self = Inr p \<longrightarrow>
      (\<exists>ps. p = PkState ps \<and> ''dataset'' \<notin> fst ` set ps)) \<and>
   (map_of self ''dataset'' = None \<longrightarrow> pickle_Dataset hp self = Inl KeyError) \<and>
   (\<forall>self' s1. map_of st ''dataset'' = None \<longrightarrow>
      Dataset_setstate ext [] st s = (Inr self', s1) \<longrightarrow> pickle_Dataset hp self' = Inl KeyError) \<and>
   (\<forall>e. refuse = Some e \<longrightarrow> pickle_Group refuse hp g = Inl e) \<and>
   (refuse = None \<longrightarrow> file_info g = Some f \<longrightarrow>
      pickle_Group refuse hp g =
        Inr (PkState [(''name'', PkStr (group_name g)),
                      (''file'', PkFile (init_args (hp f))
                         (AList.update ''skip_cache'' (skip_cache (hp f)) (init_kwargs (hp f))))])) \<and>
   pickle_File (hp(f := (hp f)\<lparr>hsh := k\<rparr>)) f = pickle_File hp f \<and>
   pickle_Group refuse (hp(f := (hp f)\<lparr>hsh := k\<rparr>)) g = pickle_Group refuse hp g \<and>
   (cache_inv ext s \<longrightarrow> File_new ext args kwargs s = (Inr f, s2) \<longrightarrow>
      (\<forall>a \<in> set (init_args (heap s2 f)). json_serializable a) \<and>
      (\<forall>kv \<in> set (init_kwargs (heap s2 f)). json_serializable (snd kv)))"
proof -
  have c1: "pickle_File hp f =
     Inr (PkFile (init_args (hp f))
            (AList.update ''skip_cache'' (skip_cache (hp f)) (init_kwargs (hp f))))"
    by (simp add: pickle_File_def File_getnewargs_ex_def)
  have c2: "pickle_Dataset hp (Dataset_init nd) =
     Inr (PkState [(''file_name'', PkStr (ds_file_name nd)), (''file_mode'', PkStr (ds_file_mode nd)),
                   (''dataset_name'', PkStr (ds_name nd))])"
    by (simp add: pickle_Dataset_def Dataset_getstate_def Dataset_init_def)
  have c3: "\<exists>ps. p = PkState ps \<and> ''dataset'' \<notin> fst ` set ps"
    if "pickle_Dataset hp self = Inr p" for p
  proof -
    from that obtain ps where st: "pickle_state hp (AList.delete ''dataset'' self) = Inr ps"
      and p: "p = PkState ps"
      by (auto simp add: pickle_Dataset_def Dataset_getstate_def split: option.splits sum.splits)
    from pickle_state_keys [OF st] have "fst ` set ps = fst ` set (AList.delete ''dataset'' self)"
      by (metis set_map)
    then have "''dataset'' \<notin> fst ` set ps" by (simp add: fst_set_delete)
    with p show ?thesis by blast
  qed
  have c4: "pickle_Dataset hp self' = Inl KeyError" if "map_of self' ''dataset'' = None" for self'
    using that by (simp add: pickle_Dataset_def Dataset_getstate_def)
  have c5: "pickle_Dataset hp self' = Inl KeyError"
    if "map_of st ''dataset'' = None" and "Dataset_setstate ext [] st s = (Inr self', s1)"
    for self' s1
  proof -
    from that(1) have "''dataset'' \<notin> fst ` set st" by (simp add: map_of_eq_None_iff)
    from dict_update_absent [OF _ this, of "[]"] Dataset_setstate_dict [OF that(2)]
    have "map_of self' ''dataset'' = None" by simp
    then show ?thesis by (rule c4)
  qed
  have c6: "pickle_Group refuse hp g = Inl e" if "refuse = Some e" for e
    using that by (simp add: pickle_Group_def)
  have c7: "pickle_Group refuse hp g =
        Inr (PkState [(''name'', PkStr (group_name g)),
                      (''file'', PkFile (init_args (hp f))
                         (AList.update ''skip_cache'' (skip_cache (hp f)) (init_kwargs (hp f))))])"
    if "refuse = None" and "file_info g = Some f"
    using that by (simp add: pickle_Group_def Group_getstate_def File_getnewargs_ex_def)
  have c8: "pickle_File (hp(f := (hp f)\<lparr>hsh := k\<rparr>)) f = pickle_File hp f"
    by (simp add: pickle_File_def File_getnewargs_ex_def)
  have c9: "pickle_Group refuse (hp(f := (hp f)\<lparr>hsh := k\<rparr>)) g = pickle_Group refuse hp g"
    by (cases "file_info g"; cases refuse)
      (simp_all add: pickle_Group_def Group_getstate_def File_getnewargs_ex_def)
  have c10: "(\<forall>a \<in> set (init_args (heap s2 f)). json_serializable a) \<and>
      (\<forall>kv \<in> set (init_kwargs (heap s2 f)). json_serializable (snd kv))"
    if inv: "cache_inv ext s" and new: "File_new ext args kwargs s = (Inr f, s2)"
  proof -
    have "\<exists>h. arghash ext (init_args (heap s2 f)) (init_kwargs (heap s2 f)) = Inr h"
      using inv new
    proof (cases rule: File_new_branches)
      case (hit h)
      from cache_invD(5) [OF inv hit(3)] hit(5) show ?thesis by auto
    next
      case (opened h)
      from File_new_open_result [OF opened(3)] opened(1) show ?thesis
        by (auto simp add: File_key_def)
    qed
    then obtain h where "arghash ext (init_args (heap s2 f)) (init_kwargs (heap s2 f)) = Inr h"
      by blast
    from arghash_serializable [OF this] show ?thesis .
  qed
  from c1 c2 c3 c4 c5 c6 c7 c8 c9 c10 show ?thesis by blast
qed

theorem pickled_forms_descriptor_only_witness:
  "cache_inv test_ext (init_state []) \<and>
   fst (File_new test_ext [PStr ''a.h5''] [(''mode'', PStr ''r'')] (init_state [])) = Inr 0 \<and>
   pickle_Dataset (heap (snd (File_new test_ext [PStr ''a.h5''] [(''mode'', PStr ''r'')] (init_state []))))
      (Dataset_init test_dataset)
    = Inr (PkState [(''file_name'', PkStr ''a.h5''), (''file_mode'', PkStr ''r''),
                    (''dataset_name'', PkStr ''x'')]) \<and>
   fst (Dataset_setstate test_ext []
          [(''file_name'', AStr ''a.h5''), (''file_mode'', AStr ''r''), (''dataset_name'', AStr ''x'')]
          (snd (File_new test_ext [PStr ''a.h5''] [(''mode'', PStr ''r'')] (init_state []))))
    = Inr [(''file_name'', AStr ''a.h5''), (''file_mode'', AStr ''r''), (''dataset_name'', AStr ''x'')] \<and>
   pickle_Dataset (heap (snd (File_new test_ext [PStr ''a.h5''] [(''mode'', PStr ''r'')] (init_state []))))
      [(''file_name'', AStr ''a.h5''), (''file_mode'', AStr ''r''), (''dataset_name'', AStr ''x'')]
    = Inl KeyError \<and>
   pickle_Group (Some TypeError)
      (heap (snd (File_new test_ext [PStr ''a.h5''] [(''mode'', PStr ''r'')] (init_state []))))
      \<lparr>group_id = 5, group_name = ''/g'', file_info = Some 0\<rparr>
    = Inl TypeError \<and>
   pickle_Group None
      (heap (snd (File_new test_ext [PStr ''a.h5''] [(''mode'', PStr ''r'')] (init_state []))))
      \<lparr>group_id = 5, group_name = ''/g'', file_info = Some 0\<rparr>
    = Inr (PkState [(''name'', PkStr ''/g''),
         (''file'', PkFile [PStr ''a.h5''] [(''mode'', PStr ''r''), (''skip_cache'', PBool False)])])"
proof -
  let ?s1 = "snd (File_new test_ext [PStr ''a.h5''] [(''mode'', PStr ''r'')] (init_state []))"
  let ?g = "\<lparr>group_id = 5, group_name = ''/g'', file_info = Some (0 :: obj)\<rparr>"
  let ?st = "[(''file_name'', AStr ''a.h5''), (''file_mode'', AStr ''r''), (''dataset_name'', AStr ''x'')]"
  let ?s2 = "snd (Dataset_setstate test_ext [] ?st ?s1)"
  have inv: "cache_inv test_ext (init_state [])" by (simp add: cache_inv_def init_state_def)
  have first: "File_new test_ext [PStr ''a.h5''] [(''mode'', PStr ''r'')] (init_state []) = (Inr 0, ?s1)"
    by (simp add: run)
  have f0: "fst (File_new test_ext [PStr ''a.h5''] [(''mode'', PStr ''r'')] (init_state [])) = Inr 0"
    using first by (metis fst_conv)
  have fi: "file_info ?g = Some 0" by simp
  have a: "init_args (heap ?s1 0) = [PStr ''a.h5'']"
    and k: "init_kwargs (heap ?s1 0) = [(''mode'', PStr ''r'')]"
    and sk: "skip_cache (heap ?s1 0) = PBool False"
    by (simp_all add: run)
  have nods: "map_of ?st ''dataset'' = None" by simp
  have set: "Dataset_setstate test_ext [] ?st ?s1 = (Inr ?st, ?s2)"
    by (simp add: Dataset_setstate_def Dataset_reopen_def self_attr_def File_getitem_def run)
  have f1: "fst (Dataset_setstate test_ext [] ?st ?s1) = Inr ?st"
    using set by (metis fst_conv)
  note th = pickled_forms_descriptor_only [where hp = "heap ?s1" and nd = test_dataset
      and f = 0 and g = ?g and k = None and ext = test_ext and self = ?st and st = ?st
      and s = ?s1 and args = "[PStr ''a.h5'']" and kwargs = "[(''mode'', PStr ''r'')]"
      and ?s2.0 = "snd (File_new test_ext [PStr ''a.h5''] [(''mode'', PStr ''r'')] ?s1)"]
  from th [where refuse = None] have pd: "pickle_Dataset (heap ?s1) (Dataset_init test_dataset) =
     Inr (PkState [(''file_name'', PkStr (ds_file_name test_dataset)),
                   (''file_mode'', PkStr (ds_file_mode test_dataset)),
                   (''dataset_name'', PkStr (ds_name test_dataset))])"
    by blast
  from th [where refuse = None] nods set have re: "pickle_Dataset (heap ?s1) ?st = Inl KeyError"
    by blast
  from th [where refuse = "Some TypeError"] have g1: "pickle_Group (Some TypeError) (heap ?s1) ?g = Inl TypeError"
    by blast
  from th [where refuse = None] fi have g2: "pickle_Group None (heap ?s1) ?g =
        Inr (PkState [(''name'', PkStr (group_name ?g)),
                      (''file'', PkFile (init_args (heap ?s1 0))
                         (AList.update ''skip_cache'' (skip_cache (heap ?s1 0)) (init_kwargs (heap ?s1 0))))])"
    by blast
  from inv f0 pd f1 re g1 g2 a k sk show ?thesis
    by (simp add: test_dataset_def)
qed

text \<open>
  C4. A File that was constructed without \<^verbatim>\<open>skip_cache\<close> and is still in the cache
  pickles to its stored arguments with the flag added, and unpickling them goes through
  \<^verbatim>\<open>File.__new__\<close>, which returns the same object without a native open. For an
  object this construction created, the pickled arguments are the arguments of the call
  (the keyword arguments without the flag) with the flag added.
\<close>

theorem File_unpickle_returns_cached:
  assumes inv: "cache_inv ext s" and flag: "\<not> truthy (File_flag kwargs)"
    and new: "File_new ext args kwargs s = (Inr f, s1)"
  shows "\<exists>p s2. pickle_File (heap s1) f = Inr p \<and>
           File_unpickle ext p s1 = (Inr f, s2) \<and> opens s2 = opens s1 \<and> world s2 = world s1 \<and>
           (f = next_obj s \<longrightarrow>
              p = PkFile args (AList.update ''skip_cache'' (File_flag kwargs) (File_kwargs kwargs)))"
proof -
  let ?a = "heap s1 f"
  let ?kw = "AList.update ''skip_cache'' (skip_cache ?a) (init_kwargs ?a)"
  from File_new_inv [OF new inv] have inv1: "cache_inv ext s1" by simp
  from File_new_cached [OF flag new] obtain h where
    key: "File_key ext args kwargs = Inr h" and c: "map_of (lru_data (cache s1)) h = Some f"
    by blast
  note d = cache_invD [OF inv1 c]
  have p: "pickle_File (heap s1) f = Inr (PkFile (init_args ?a) ?kw)"
    by (simp add: pickle_File_def File_getnewargs_ex_def)
  have "AList.delete ''skip_cache'' (init_kwargs ?a) = init_kwargs ?a"
    using d(4) by (simp add: delete_id map_of_eq_None_iff)
  then have key': "File_key ext (init_args ?a) ?kw = Inr h"
    using d(5) by (simp add: File_key_def File_kwargs_delete delete_update_same)
  have nt: "\<not> truthy (File_flag ?kw)" using d(3) by (simp add: File_flag_update)
  from File_new_hit [OF key' nt c]
  have u: "File_unpickle ext (PkFile (init_args ?a) ?kw) s1 =
      (Inr f, set_hsh f h
         (s1\<lparr>cache := (cache s1)\<lparr>lru_order := removeAll h (lru_order (cache s1)) @ [h]\<rparr>\<rparr>))"
    by (simp add: File_unpickle_def)
  have orig: "PkFile (init_args ?a) ?kw
        = PkFile args (AList.update ''skip_cache'' (File_flag kwargs) (File_kwargs kwargs))"
    if "f = next_obj s"
    using inv new
  proof (cases rule: File_new_branches)
    case (hit h')
    with that show ?thesis by simp
  next
    case (opened h')
    from File_new_open_result [OF opened(3)] opened(4) show ?thesis by simp
  qed
  from p u orig show ?thesis by (simp add: set_hsh_def)
qed

theorem File_unpickle_returns_cached_witness:
  "cache_inv test_ext (init_state []) \<and>
   fst (File_new test_ext [PStr ''a.h5''] [(''mode'', PStr ''r'')] (init_state [])) = Inr 0 \<and>
   pickle_File (heap (snd (File_new test_ext [PStr ''a.h5''] [(''mode'', PStr ''r'')] (init_state [])))) 0
     = Inr (PkFile [PStr ''a.h5''] [(''mode'', PStr ''r''), (''skip_cache'', PBool False)]) \<and>
   fst (File_unpickle test_ext
          (PkFile [PStr ''a.h5''] [(''mode'', PStr ''r''), (''skip_cache'', PBool False)])
          (snd (File_new test_ext [PStr ''a.h5''] [(''mode'', PStr ''r'')] (init_state [])))) = Inr 0"
proof -
  let ?kw = "[(''mode'', PStr ''r'')] :: kwargs"
  let ?s1 = "snd (File_new test_ext [PStr ''a.h5''] ?kw (init_state []))"
  have inv: "cache_inv test_ext (init_state [])" by (simp add: cache_inv_def init_state_def)
  have flag: "\<not> truthy (File_flag ?kw)" by (simp add: File_flag_def dict_pop_def)
  have first: "File_new test_ext [PStr ''a.h5''] ?kw (init_state []) = (Inr 0, ?s1)"
    by (simp add: run)
  have fresh: "(0 :: obj) = next_obj (init_state ([] :: obj list))" by (simp add: init_state_def)
  have upd: "AList.update ''skip_cache'' (File_flag ?kw) (File_kwargs ?kw)
      = [(''mode'', PStr ''r''), (''skip_cache'', PBool False)]"
    by (simp add: File_flag_def File_kwargs_def dict_pop_def)
  from File_unpickle_returns_cached [OF inv flag first] fresh upd
  have "pickle_File (heap ?s1) 0 = Inr (PkFile [PStr ''a.h5''] [(''mode'', PStr ''r''), (''skip_cache'', PBool False)])
    \<and> fst (File_unpickle test_ext (PkFile [PStr ''a.h5''] [(''mode'', PStr ''r''), (''skip_cache'', PBool False)]) ?s1) = Inr 0"
    by (metis fst_conv)
  with inv first show ?thesis by (metis fst_conv)
qed

text \<open>
  C5, as the code has it. An eviction removes the least recently used entry and calls the
  \<^verbatim>\<open>close\<close> of its value: the state afterwards is the one that call leaves. When the
  call returns or raises \<^verbatim>\<open>AttributeError\<close>, the eviction returns the evicted pair;
  any other exception leaves the eviction as it is. When the native close of a file can
  only succeed or raise \<^verbatim>\<open>AttributeError\<close>, an insertion into a cache of capacity at
  least 1 returns, whatever it had to evict.
\<close>

theorem eviction_swallows_AttributeError_only:
  "(LRUCache_popitem (cache s) = (Inr kv, c) \<longrightarrow>
    val_close (snd kv) (s\<lparr>cache := c\<rparr>) = (r, s') \<longrightarrow>
      snd (LRUFileCache_popitem val_close s) = s' \<and>
      (r = Inr () \<or> r = Inl AttributeError \<longrightarrow>
         fst (LRUFileCache_popitem val_close s) = Inr kv) \<and>
      (\<forall>e. r = Inl e \<and> e \<noteq> AttributeError \<longrightarrow>
         fst (LRUFileCache_popitem val_close s) = Inl e)) \<and>
   (close_ok ext \<longrightarrow> lru_wf (cache t) \<longrightarrow> 1 \<le> lru_maxsize (cache t) \<longrightarrow>
      fst (LRUFileCache_setitem ext k v t) = Inr ())"
proof -
  have a: "snd (LRUFileCache_popitem val_close s) = s' \<and>
      (r = Inr () \<or> r = Inl AttributeError \<longrightarrow>
         fst (LRUFileCache_popitem val_close s) = Inr kv) \<and>
      (\<forall>e. r = Inl e \<and> e \<noteq> AttributeError \<longrightarrow>
         fst (LRUFileCache_popitem val_close s) = Inl e)"
    if "LRUCache_popitem (cache s) = (Inr kv, c)"
      and "val_close (snd kv) (s\<lparr>cache := c\<rparr>) = (r, s')"
    using that by (cases r) (auto simp add: LRUFileCache_popitem_def)
  have b: "fst (LRUFileCache_setitem ext k v t) = Inr ()"
    if "close_ok ext" and "lru_wf (cache t)" and "1 \<le> lru_maxsize (cache t)"
    using LRUFileCache_setitem_wf [OF that] by simp
  from a b show ?thesis by blast
qed

theorem eviction_swallows_AttributeError_only_witness:
  "LRUFileCache_popitem no_close
     (snd (File_new test_ext [PStr ''a.h5''] [] (small_state 1)))
   = (Inr (10, 0),
      (snd (File_new test_ext [PStr ''a.h5''] [] (small_state 1)))
        \<lparr>cache := \<lparr>lru_data = [], lru_order = [], lru_maxsize = 1\<rparr>\<rparr>) \<and>
   close_ok test_ext \<and>
   lru_wf (cache (snd (File_new test_ext [PStr ''a.h5''] [] (small_state 1)))) \<and>
   fst (LRUFileCache_setitem test_ext 11 1
          (snd (File_new test_ext [PStr ''a.h5''] [] (small_state 1)))) = Inr ()"
proof -
  let ?s = "snd (File_new test_ext [PStr ''a.h5''] [] (small_state 1))"
  let ?c = "\<lparr>lru_data = [], lru_order = [], lru_maxsize = 1\<rparr>"
  have p: "LRUCache_popitem (cache ?s) = (Inr (10, 0), ?c)" by (simp add: run)
  have cl: "no_close (snd (10 :: int, 0 :: obj)) (?s\<lparr>cache := ?c\<rparr>) = (Inl AttributeError, ?s\<lparr>cache := ?c\<rparr>)"
    by (simp add: no_close_def)
  have ok: "close_ok test_ext" by (simp add: close_ok_def test_ext_def)
  have wf: "lru_wf (cache ?s)" by (simp add: lru_wf_def run)
  have m: "1 \<le> lru_maxsize (cache ?s)" by (simp add: run)
  note th = eviction_swallows_AttributeError_only [where val_close = no_close and s = ?s
      and kv = "(10, 0)" and c = ?c and r = "Inl AttributeError" and s' = "?s\<lparr>cache := ?c\<rparr>"
      and ext = test_ext and t = ?s and k = 11 and v = 1]
  from th p cl have "snd (LRUFileCache_popitem no_close ?s) = ?s\<lparr>cache := ?c\<rparr>"
    and "fst (LRUFileCache_popitem no_close ?s) = Inr (10, 0)"
    by blast+
  then have one: "LRUFileCache_popitem no_close ?s = (Inr (10, 0), ?s\<lparr>cache := ?c\<rparr>)"
    by (metis prod.collapse)
  from th ok wf m have "fst (LRUFileCache_setitem test_ext 11 1 ?s) = Inr ()" by blast
  with one ok wf show ?thesis by blast
qed

text \<open>
  C5 as stated fails: when the native close of the evicted file raises \<^verbatim>\<open>OSError\<close>,
  the eviction raises it, and so does the construction whose insertion triggered it.
\<close>

theorem eviction_close_failure_counterexample:
  "fst (LRUFileCache_popitem (File_close failing_ext)
          (snd (File_new failing_ext [PStr ''a.h5''] [] (small_state 1)))) = Inl OSError \<and>
   fst (File_new failing_ext [PStr ''bb.h5''] []
          (snd (File_new failing_ext [PStr ''a.h5''] [] (small_state 1)))) = Inl OSError"
  by (simp add: run evict_while.simps)

text \<open>
  C6 fails on the code: \<^verbatim>\<open>File.close\<close> compares each cached File with the integer
  \<^verbatim>\<open>self.hsh\<close>, which is never equal, so nothing is deleted. After
  \<^verbatim>\<open>f = File('a.h5'); f.close()\<close> the native file is closed, the cache still holds
  the entry, and the next \<^verbatim>\<open>File('a.h5')\<close> returns the closed object.
\<close>

theorem File_close_leaves_cache_entry:
  "fst (File_new test_ext [PStr ''a.h5''] [] (init_state [])) = Inr 0 \<and>
   fst (File_close test_ext 0 (snd (File_new test_ext [PStr ''a.h5''] [] (init_state [])))) = Inr () \<and>
   world (snd (File_close test_ext 0 (snd (File_new test_ext [PStr ''a.h5''] [] (init_state []))))) = [] \<and>
   lru_data (cache (snd (File_close test_ext 0
       (snd (File_new test_ext [PStr ''a.h5''] [] (init_state [])))))) = [(10, 0)] \<and>
   fst (File_new test_ext [PStr ''a.h5''] []
       (snd (File_close test_ext 0 (snd (File_new test_ext [PStr ''a.h5''] [] (init_state [])))))) = Inr 0"
  by (simp add: run)



text \<open>
  C8, as the code has it. Two constructions whose keys differ never return the same
  object. The key is the hash of the JSON text of the arguments, and the cache compares
  nothing else: two constructions without \<^verbatim>\<open>skip_cache\<close> whose keys are equal return
  the same object.
\<close>

theorem keys_decide_sharing:
  assumes inv: "cache_inv ext s"
    and n1: "File_new ext args1 kwargs1 s = (Inr f1, s1)"
  shows "(\<forall>f2 s2. File_new ext args2 kwargs2 s1 = (Inr f2, s2) \<longrightarrow>
            File_key ext args1 kwargs1 \<noteq> File_key ext args2 kwargs2 \<longrightarrow> f1 \<noteq> f2) \<and>
         (\<not> truthy (File_flag kwargs1) \<longrightarrow> \<not> truthy (File_flag kwargs2) \<longrightarrow>
            File_key ext args1 kwargs1 = File_key ext args2 kwargs2 \<longrightarrow>
            fst (File_new ext args2 kwargs2 s1) = Inr f1)"
proof -
  from File_new_inv [OF n1 inv] have inv1: "cache_inv ext s1" by simp
  from File_new_lt [OF inv n1] have lt: "f1 < next_obj s1" .
  from File_new_result [OF n1] obtain h1 where
    k1: "File_key ext args1 kwargs1 = Inr h1" and hs1: "hsh (heap s1 f1) = Some h1"
    by blast
  have a: "f1 \<noteq> f2"
    if n2: "File_new ext args2 kwargs2 s1 = (Inr f2, s2)"
      and keys: "File_key ext args1 kwargs1 \<noteq> File_key ext args2 kwargs2" for f2 s2
    using inv1 n2
  proof (cases rule: File_new_branches)
    case (hit h2)
    from cache_invD(2) [OF inv1 hit(3)] have "hsh (heap s1 f2) = Some h2" .
    with hs1 k1 hit(1) keys show ?thesis by auto
  next
    case (opened h2)
    with lt show ?thesis by simp
  qed
  have b: "fst (File_new ext args2 kwargs2 s1) = Inr f1"
    if nt1: "\<not> truthy (File_flag kwargs1)" and nt2: "\<not> truthy (File_flag kwargs2)"
      and same: "File_key ext args1 kwargs1 = File_key ext args2 kwargs2"
  proof -
    from File_new_cached [OF nt1 n1] k1 have c: "map_of (lru_data (cache s1)) h1 = Some f1"
      by simp
    from same k1 have k2: "File_key ext args2 kwargs2 = Inr h1" by simp
    from File_new_hit [OF k2 nt2 c] show ?thesis by simp
  qed
  from a b show ?thesis by blast
qed

theorem keys_decide_sharing_witness:
  "cache_inv test_ext (init_state []) \<and>
   File_key test_ext [PStr ''a.h5''] [] \<noteq> File_key test_ext [PStr ''bb.h5''] [] \<and>
   fst (File_new test_ext [PStr ''a.h5''] [] (init_state [])) = Inr 0 \<and>
   fst (File_new test_ext [PStr ''bb.h5''] []
          (snd (File_new test_ext [PStr ''a.h5''] [] (init_state [])))) = Inr 1 \<and>
   (0 :: obj) \<noteq> 1 \<and>
   fst (File_new test_ext [PStr ''a.h5''] []
          (snd (File_new test_ext [PStr ''a.h5''] [] (init_state [])))) = Inr 0"
proof -
  let ?s1 = "snd (File_new test_ext [PStr ''a.h5''] [] (init_state []))"
  let ?s2 = "snd (File_new test_ext [PStr ''bb.h5''] [] ?s1)"
  have inv: "cache_inv test_ext (init_state [])" by (simp add: cache_inv_def init_state_def)
  have keys: "File_key test_ext [PStr ''a.h5''] [] \<noteq> File_key test_ext [PStr ''bb.h5''] []"
    by (simp add: run)
  have first: "File_new test_ext [PStr ''a.h5''] [] (init_state []) = (Inr 0, ?s1)"
    by (simp add: run)
  have second: "File_new test_ext [PStr ''bb.h5''] [] ?s1 = (Inr 1, ?s2)"
    by (simp add: run)
  have nt: "\<not> truthy (File_flag [])" by (simp add: File_flag_def dict_pop_def)
  from keys_decide_sharing [OF inv first, of "[PStr ''bb.h5'']" "[]"] second keys
  have d: "(0 :: obj) \<noteq> 1" by blast
  from keys_decide_sharing [OF inv first, of "[PStr ''a.h5'']" "[]"] nt
  have e: "fst (File_new test_ext [PStr ''a.h5''] [] ?s1) = Inr 0" by blast
  from inv keys first second d e show ?thesis by (metis fst_conv)
qed

text \<open>
  C8 as stated fails: a tuple and a list are different argument values with the same JSON
  text, hence the same key under any hash, and the second construction returns the
  object of the first.
\<close>

theorem distinct_descriptors_alias_counterexample:
  "[(''libver'', PTuple [PStr ''earliest'', PStr ''latest''])]
     \<noteq> [(''libver'', PList [PStr ''earliest'', PStr ''latest''])] \<and>
   dumps True (PDict [(''libver'', PTuple [PStr ''earliest'', PStr ''latest''])])
     = dumps True (PDict [(''libver'', PList [PStr ''earliest'', PStr ''latest''])]) \<and>
   fst (File_new test_ext [PStr ''a.h5'']
          [(''libver'', PTuple [PStr ''earliest'', PStr ''latest''])] (init_state [])) = Inr 0 \<and>
   fst (File_new test_ext [PStr ''a.h5'']
          [(''libver'', PList [PStr ''earliest'', PStr ''latest''])]
          (snd (File_new test_ext [PStr ''a.h5'']
             [(''libver'', PTuple [PStr ''earliest'', PStr ''latest''])] (init_state [])))) = Inr 0"
  by (simp add: run)

text \<open>
  C9. The flag \<^verbatim>\<open>skip_cache\<close> is removed before the key is computed: the key of a call
  is the hash of the arguments with the flag deleted, so it is the same whatever value
  the flag is given; the object a construction returns carries that key in \<open>hsh\<close>,
  bypassed or not; and after \<^verbatim>\<open>File(*args, **kwargs)\<close> without the flag, the call with
  \<^verbatim>\<open>skip_cache=False\<close> added returns the same object.
\<close>

theorem skip_cache_not_in_key:
  "File_key ext args kwargs = arghash ext args (AList.delete ''skip_cache'' kwargs) \<and>
   File_key ext args (AList.update ''skip_cache'' v kwargs) = File_key ext args kwargs \<and>
   (\<forall>f s1. File_new ext args (AList.update ''skip_cache'' v kwargs) s = (Inr f, s1) \<longrightarrow>
      (\<exists>h. File_key ext args kwargs = Inr h \<and> hsh (heap s1 f) = Some h)) \<and>
   (map_of kwargs ''skip_cache'' = None \<longrightarrow>
      (\<forall>f s1. File_new ext args kwargs s = (Inr f, s1) \<longrightarrow>
         fst (File_new ext args (AList.update ''skip_cache'' (PBool False) kwargs) s1) = Inr f))"
proof (intro conjI allI impI)
  show "File_key ext args kwargs = arghash ext args (AList.delete ''skip_cache'' kwargs)"
    by (simp add: File_key_def File_kwargs_delete)
next
  show "File_key ext args (AList.update ''skip_cache'' v kwargs) = File_key ext args kwargs"
    by (rule File_key_update)
next
  fix f s1
  assume "File_new ext args (AList.update ''skip_cache'' v kwargs) s = (Inr f, s1)"
  from File_new_result [OF this]
  show "\<exists>h. File_key ext args kwargs = Inr h \<and> hsh (heap s1 f) = Some h"
    by (auto simp add: File_key_update)
next
  fix f s1
  assume absent: "map_of kwargs ''skip_cache'' = None"
    and new: "File_new ext args kwargs s = (Inr f, s1)"
  have nt: "\<not> truthy (File_flag kwargs)" using absent by (simp add: File_flag_absent)
  from File_new_cached [OF nt new] obtain h where
    key: "File_key ext args kwargs = Inr h" and c: "map_of (lru_data (cache s1)) h = Some f"
    by blast
  have key': "File_key ext args (AList.update ''skip_cache'' (PBool False) kwargs) = Inr h"
    using key by (simp add: File_key_update)
  have nt': "\<not> truthy (File_flag (AList.update ''skip_cache'' (PBool False) kwargs))"
    by (simp add: File_flag_update)
  from File_new_hit [OF key' nt' c]
  show "fst (File_new ext args (AList.update ''skip_cache'' (PBool False) kwargs) s1) = Inr f"
    by simp
qed

theorem skip_cache_not_in_key_witness:
  "map_of ([(''mode'', PStr ''r'')] :: kwargs) ''skip_cache'' = None \<and>
   fst (File_new test_ext [PStr ''a.h5''] [(''mode'', PStr ''r'')] (init_state [])) = Inr 0 \<and>
   fst (File_new test_ext [PStr ''a.h5''] [(''mode'', PStr ''r''), (''skip_cache'', PBool False)]
     (snd (File_new test_ext [PStr ''a.h5''] [(''mode'', PStr ''r'')] (init_state [])))) = Inr 0"
proof -
  let ?kw = "[(''mode'', PStr ''r'')] :: kwargs"
  let ?s1 = "snd (File_new test_ext [PStr ''a.h5''] ?kw (init_state []))"
  have absent: "map_of ?kw ''skip_cache'' = None" by simp
  have first: "File_new test_ext [PStr ''a.h5''] ?kw (init_state []) = (Inr 0, ?s1)"
    by (simp add: run)
  have upd: "AList.update ''skip_cache'' (PBool False) ?kw
      = [(''mode'', PStr ''r''), (''skip_cache'', PBool False)]"
    by simp
  from skip_cache_not_in_key [of test_ext "[PStr ''a.h5'']" ?kw "PBool False" "init_state []"]
    absent first upd
  show ?thesis by (metis fst_conv)
qed



end
